theory Spec2Isabelle
  imports Main
begin

section \<open>Exceptions, remote data and the observable trace\<close>

text \<open>
  The exception classes that \<^verbatim>\<open>run_backup.py\<close> distinguishes. \<open>ConnectionError\<close> is
  \<^verbatim>\<open>requests.exceptions.ConnectionError\<close>, \<open>ProtocolError\<close> is
  \<^verbatim>\<open>urllib3.exceptions.ProtocolError\<close>, \<open>ApiError\<close> is \<^verbatim>\<open>dropbox.exceptions.ApiError\<close>
  with the summary of the rejection, \<open>PlainException\<close> is the \<^verbatim>\<open>Exception\<close> raised by
  \<^verbatim>\<open>upload\<close> on a size mismatch, \<open>ValueError\<close> is what \<^verbatim>\<open>datetime.strptime\<close> and
  \<^verbatim>\<open>json.loads\<close> raise on a text they cannot parse, \<open>CalledProcessError\<close> is what
  \<^verbatim>\<open>subprocess.check_output\<close> raises when \<^verbatim>\<open>ffprobe\<close> exits with an error, and
  \<open>OtherError\<close> stands for every other class.
\<close>

datatype exn =
    ConnectionError
  | ProtocolError
  | ApiError string
  | OSError
  | AttributeError
  | PlainException
  | ValueError
  | CalledProcessError
  | OtherError

text \<open>The bytes returned by one \<^verbatim>\<open>read\<close>: the slice of the local file that starts at
  offset \<open>first\<close> and holds \<open>count\<close> bytes.\<close>

datatype data = Bytes (first: nat) (count: nat)

record datetime =
  year :: nat
  month :: nat
  day :: nat

datatype media_info = Pending | MediaMetadata "datetime option"

record file_metadata =
  name :: string
  path_lower :: string
  size_bytes :: nat
  media_info :: "media_info option"

datatype entry =
    FileMetadata file_metadata
  | FolderMetadata string
  | DeletedMetadata string

record cursor =
  session_id :: string
  offset :: nat

datatype write_mode = Add | Overwrite | Update string

record commit_info =
  path :: string
  autorename :: bool
  mode :: write_mode

text \<open>The requests sent to the remote store, one constructor per client method used.\<close>

datatype request =
    FilesGetMetadata string
  | FilesUpload data string
  | SessionStart data
  | SessionAppend data string nat
  | SessionFinish data cursor commit_info
  | FilesMove string string

datatype reply =
    GotEntry entry
  | GotFile file_metadata
  | GotSession string
  | Done

datatype message =
    ErrorFailedOperation
  | WarningNetworkError nat
  | UploadedBytes nat
  | FailedToGetMetadata
  | AlreadyExists string
  | NotLoadedApiError string
  | FileReadFailed
  | TotalElapsedTime
  | DeletingFile
  | MovingFromTo string string
  | SkippingMove string
  | TypeOf

text \<open>What an execution does that can be observed from outside: every attempt of a
  remote request with its outcome, every failed read of the local file, every line
  printed, and the removal of the local file.\<close>

datatype event =
    Attempt request "exn + reply"
  | ReadError
  | Print message
  | Remove

text \<open>The remote client \<^verbatim>\<open>dbx\<close>: each method takes the state of the remote side
  (store and network) and returns an exception or a value, and the next state.\<close>

record 'w dropbox =
  files_get_metadata :: "string \<Rightarrow> 'w \<Rightarrow> (exn + entry) \<times> 'w"
  files_upload :: "data \<Rightarrow> string \<Rightarrow> 'w \<Rightarrow> (exn + file_metadata) \<times> 'w"
  files_upload_session_start :: "data \<Rightarrow> 'w \<Rightarrow> (exn + string) \<times> 'w"
  files_upload_session_append :: "data \<Rightarrow> string \<Rightarrow> nat \<Rightarrow> 'w \<Rightarrow> (exn + unit) \<times> 'w"
  files_upload_session_finish :: "data \<Rightarrow> cursor \<Rightarrow> commit_info \<Rightarrow> 'w \<Rightarrow> (exn + file_metadata) \<times> 'w"
  files_move :: "string \<Rightarrow> string \<Rightarrow> 'w \<Rightarrow> (exn + unit) \<times> 'w"

text \<open>The state of one task: the remote side, the position of the open local file
  (\<^verbatim>\<open>file_obj.tell()\<close>) and the events so far.\<close>

record 'w state =
  world :: 'w
  tell :: nat
  trace :: "event list"

definition emit :: "event \<Rightarrow> 'w state \<Rightarrow> 'w state" where
  "emit e s = s\<lparr>trace := trace s @ [e]\<rparr>"

definition print :: "message \<Rightarrow> 'w state \<Rightarrow> 'w state" where
  "print m s = emit (Print m) s"

text \<open>One call of a client method: the remote side answers, and the attempt is
  recorded with its outcome.\<close>

definition attempt ::
  "request \<Rightarrow> ('a \<Rightarrow> reply) \<Rightarrow> ('w \<Rightarrow> (exn + 'a) \<times> 'w) \<Rightarrow> 'w state \<Rightarrow> (exn + 'a) \<times> 'w state" where
  "attempt req wrap func s =
     (case func (world s) of
        (r, w) \<Rightarrow> (r, emit (Attempt req (map_sum id wrap r)) (s\<lparr>world := w\<rparr>)))"

section \<open>The retry wrapper\<close>

definition MAX_UPLOAD_CHUNK_SIZE :: nat where
  "MAX_UPLOAD_CHUNK_SIZE = 8 * 1024 * 1024"

definition MAX_RETRY_COUNT_ON_NETWORK_ERROR :: nat where
  "MAX_RETRY_COUNT_ON_NETWORK_ERROR = 10"

definition network_error :: "exn \<Rightarrow> bool" where
  "network_error e = (e = ConnectionError \<or> e = ProtocolError)"

text \<open>
  The loop of \<^verbatim>\<open>_auto_retry\<close>, with \<^verbatim>\<open>retry_count\<close> as an argument. On the failure that
  makes \<^verbatim>\<open>retry_count\<close> equal to the ceiling, the source evaluates
  \<^verbatim>\<open>print("...").format(...)\<close>: with \<^verbatim>\<open>print_function\<close> imported, \<^verbatim>\<open>print\<close> writes the
  line and returns \<^verbatim>\<open>None\<close>, and \<^verbatim>\<open>None.format\<close> raises \<^verbatim>\<open>AttributeError\<close> before the
  \<^verbatim>\<open>raise\<close> statement is reached.
\<close>

partial_function (option) auto_retry_loop ::
  "('w state \<Rightarrow> (exn + 'a) \<times> 'w state) \<Rightarrow> nat \<Rightarrow> 'w state \<Rightarrow> ((exn + 'a) \<times> 'w state) option" where
  "auto_retry_loop func retry_count s =
     (case func s of
        (Inr v, s1) \<Rightarrow> Some (Inr v, s1)
      | (Inl e, s1) \<Rightarrow>
          if network_error e then
            (if retry_count + 1 = MAX_RETRY_COUNT_ON_NETWORK_ERROR
             then Some (Inl AttributeError, print ErrorFailedOperation s1)
             else auto_retry_loop func (retry_count + 1)
                    (print (WarningNetworkError (retry_count + 1)) s1))
          else Some (Inl e, s1))"

declare auto_retry_loop.simps [code]

definition auto_retry ::
  "('w state \<Rightarrow> (exn + 'a) \<times> 'w state) \<Rightarrow> 'w state \<Rightarrow> ((exn + 'a) \<times> 'w state) option" where
  "auto_retry func s = auto_retry_loop func 0 s"

section \<open>The local file\<close>

text \<open>
  The open local file: \<open>content_size\<close> is the number of bytes that can be read from it
  (it may differ from the size \<^verbatim>\<open>os.path.getsize\<close> reported earlier), and \<open>bad_offset\<close>
  is the offset of a byte whose reading fails, if there is one. \<^verbatim>\<open>read(n)\<close> returns at
  most \<open>n\<close> bytes from the current position, nothing at or after the end of the file,
  and advances the position by what it returns; \<^verbatim>\<open>read()\<close> (here \<open>None\<close>) returns all
  that is left. A read that covers the bad byte raises \<^verbatim>\<open>OSError\<close>.
\<close>

record local_file =
  content_size :: nat
  bad_offset :: "nat option"

definition read :: "local_file \<Rightarrow> nat option \<Rightarrow> 'w state \<Rightarrow> (exn + data) \<times> 'w state" where
  "read file_obj n s =
     (let left = content_size file_obj - tell s;
          got = (case n of None \<Rightarrow> left | Some k \<Rightarrow> min k left)
      in if (case bad_offset file_obj of None \<Rightarrow> False
             | Some b \<Rightarrow> tell s \<le> b \<and> b < tell s + got)
         then (Inl OSError, emit ReadError s)
         else (Inr (Bytes (tell s) got), s\<lparr>tell := tell s + got\<rparr>))"

section \<open>Remote calls\<close>

definition get_metadata :: "'w dropbox \<Rightarrow> string \<Rightarrow> 'w state \<Rightarrow> (exn + entry) \<times> 'w state" where
  "get_metadata dbx p = attempt (FilesGetMetadata p) GotEntry (files_get_metadata dbx p)"

definition upload_call ::
  "'w dropbox \<Rightarrow> data \<Rightarrow> string \<Rightarrow> 'w state \<Rightarrow> (exn + file_metadata) \<times> 'w state" where
  "upload_call dbx d p = attempt (FilesUpload d p) GotFile (files_upload dbx d p)"

definition session_start :: "'w dropbox \<Rightarrow> data \<Rightarrow> 'w state \<Rightarrow> (exn + string) \<times> 'w state" where
  "session_start dbx d = attempt (SessionStart d) GotSession (files_upload_session_start dbx d)"

definition session_append ::
  "'w dropbox \<Rightarrow> data \<Rightarrow> string \<Rightarrow> nat \<Rightarrow> 'w state \<Rightarrow> (exn + unit) \<times> 'w state" where
  "session_append dbx d sid off =
     attempt (SessionAppend d sid off) (\<lambda>_. Done) (files_upload_session_append dbx d sid off)"

definition session_finish ::
  "'w dropbox \<Rightarrow> data \<Rightarrow> cursor \<Rightarrow> commit_info \<Rightarrow> 'w state \<Rightarrow> (exn + file_metadata) \<times> 'w state" where
  "session_finish dbx d c ci =
     attempt (SessionFinish d c ci) GotFile (files_upload_session_finish dbx d c ci)"

definition move_call :: "'w dropbox \<Rightarrow> string \<Rightarrow> string \<Rightarrow> 'w state \<Rightarrow> (exn + unit) \<times> 'w state" where
  "move_call dbx src dest = attempt (FilesMove src dest) (\<lambda>_. Done) (files_move dbx src dest)"

text \<open>\<^verbatim>\<open>_get_server_file_size\<close>: the call is not wrapped in \<^verbatim>\<open>_auto_retry\<close>; every
  \<^verbatim>\<open>ApiError\<close> gives 0, any other exception propagates, and an entry without a
  \<^verbatim>\<open>size\<close> attribute (a folder) raises \<^verbatim>\<open>AttributeError\<close>.\<close>

definition get_server_file_size ::
  "'w dropbox \<Rightarrow> string \<Rightarrow> 'w state \<Rightarrow> (exn + nat) \<times> 'w state" where
  "get_server_file_size dbx server_path s =
     (case get_metadata dbx server_path s of
        (Inr (FileMetadata metadata), s1) \<Rightarrow> (Inr (size_bytes metadata), s1)
      | (Inr _, s1) \<Rightarrow> (Inl AttributeError, s1)
      | (Inl (ApiError x), s1) \<Rightarrow> (Inr 0, s1)
      | (Inl e, s1) \<Rightarrow> (Inl e, s1))"

section \<open>The chunked upload\<close>

text \<open>The \<^verbatim>\<open>while\<close> loop of \<^verbatim>\<open>_chunk_upload\<close>. It may run forever, so not returning is
  the value \<open>None\<close>.\<close>

partial_function (option) chunk_upload_loop ::
  "'w dropbox \<Rightarrow> local_file \<Rightarrow> nat \<Rightarrow> cursor \<Rightarrow> commit_info \<Rightarrow> string \<Rightarrow> 'w state
     \<Rightarrow> ((exn + string) \<times> 'w state) option" where
  "chunk_upload_loop dbx file_obj file_size cursor commit uploaded_file_path s =
     (if tell s < file_size then
        (if file_size - tell s \<le> MAX_UPLOAD_CHUNK_SIZE then
           (case read file_obj (Some MAX_UPLOAD_CHUNK_SIZE) s of
              (Inl e, s1) \<Rightarrow> Some (Inl e, s1)
            | (Inr d, s1) \<Rightarrow>
                (case auto_retry (session_finish dbx d cursor commit) s1 of
                   None \<Rightarrow> None
                 | Some (Inl e, s2) \<Rightarrow> Some (Inl e, s2)
                 | Some (Inr metadata, s2) \<Rightarrow>
                     chunk_upload_loop dbx file_obj file_size cursor commit (path_lower metadata)
                       (print (UploadedBytes (offset cursor)) s2)))
         else
           (case read file_obj (Some MAX_UPLOAD_CHUNK_SIZE) s of
              (Inl e, s1) \<Rightarrow> Some (Inl e, s1)
            | (Inr d, s1) \<Rightarrow>
                (case auto_retry (session_append dbx d (session_id cursor) (offset cursor)) s1 of
                   None \<Rightarrow> None
                 | Some (Inl e, s2) \<Rightarrow> Some (Inl e, s2)
                 | Some (Inr u, s2) \<Rightarrow>
                     chunk_upload_loop dbx file_obj file_size (cursor\<lparr>offset := tell s2\<rparr>) commit
                       uploaded_file_path (print (UploadedBytes (tell s2)) s2))))
      else Some (Inr uploaded_file_path, s))"

declare chunk_upload_loop.simps [code]

definition chunk_upload ::
  "'w dropbox \<Rightarrow> string \<Rightarrow> local_file \<Rightarrow> nat \<Rightarrow> 'w state \<Rightarrow> ((exn + string) \<times> 'w state) option" where
  "chunk_upload dbx server_path file_obj file_size s =
     (case read file_obj (Some MAX_UPLOAD_CHUNK_SIZE) s of
        (Inl e, s1) \<Rightarrow> Some (Inl e, s1)
      | (Inr d, s1) \<Rightarrow>
          (case auto_retry (session_start dbx d) s1 of
             None \<Rightarrow> None
           | Some (Inl e, s2) \<Rightarrow> Some (Inl e, s2)
           | Some (Inr sid, s2) \<Rightarrow>
               chunk_upload_loop dbx file_obj file_size
                 \<lparr>session_id = sid, offset = tell s2\<rparr>
                 \<lparr>path = server_path, autorename = True, mode = Add\<rparr> [] s2))"

section \<open>Canonical paths\<close>

fun decimal :: "nat \<Rightarrow> string" where
  "decimal n = (if n < 10 then [''0123456789'' ! n]
                else decimal (n div 10) @ [''0123456789'' ! (n mod 10)])"

declare decimal.simps [simp del]

definition pad2 :: "nat \<Rightarrow> string" where
  "pad2 n = (if n < 10 then CHR ''0'' # decimal n else decimal n)"

text \<open>\<^verbatim>\<open>"/Photos/{}/{:02}/{:02}/{}".format(t.year, t.month, t.day, base)\<close>\<close>

definition photos_path :: "datetime \<Rightarrow> string \<Rightarrow> string" where
  "photos_path t base =
     ''/Photos/'' @ decimal (year t) @ ''/'' @ pad2 (month t) @ ''/'' @ pad2 (day t) @ ''/'' @ base"

text \<open>
  \<^verbatim>\<open>_get_svr_path_from_metadata\<close>. The capture time is read from the local file by
  \<^verbatim>\<open>_get_video_creation_date\<close> (for the extension \<^verbatim>\<open>.mov\<close>) or \<^verbatim>\<open>_get_image_creation_time\<close>,
  through \<^verbatim>\<open>ffprobe\<close>, \<^verbatim>\<open>exifread\<close> and \<^verbatim>\<open>datetime.strptime\<close>. The outcome of that call
  is given as \<open>extraction\<close>: \<open>Inl e\<close> when it raises \<open>e\<close> (\<^verbatim>\<open>check_output\<close> fails,
  the file cannot be opened, the date does not have the expected format), \<open>Inr None\<close>
  when it returns \<^verbatim>\<open>None\<close> (no tag found), \<open>Inr (Some t)\<close> when it returns the time
  \<open>t\<close>. Nothing is caught, so an exception of the extraction leaves the function;
  \<open>base\<close> is the base name of the file.
\<close>

definition get_svr_path_from_metadata ::
  "exn + datetime option \<Rightarrow> string \<Rightarrow> 'w state \<Rightarrow> (exn + string option) \<times> 'w state" where
  "get_svr_path_from_metadata extraction base s =
     (case extraction of
        Inl e \<Rightarrow> (Inl e, s)
      | Inr None \<Rightarrow> (Inr None, print FailedToGetMetadata s)
      | Inr (Some time_stamp) \<Rightarrow> (Inr (Some (photos_path time_stamp base)), s))"

section \<open>The upload task\<close>

text \<open>The \<^verbatim>\<open>try\<close> block of \<^verbatim>\<open>upload\<close> with its two handlers: the value is the new
  \<^verbatim>\<open>uploaded_full_path\<close>, \<open>None\<close> after an \<^verbatim>\<open>ApiError\<close>.\<close>

definition transfer ::
  "'w dropbox \<Rightarrow> string \<Rightarrow> local_file \<Rightarrow> nat \<Rightarrow> 'w state
     \<Rightarrow> ((exn + string option) \<times> 'w state) option" where
  "transfer dbx dest_full_path local_file file_size s =
     (case
        (if file_size > MAX_UPLOAD_CHUNK_SIZE
         then chunk_upload dbx dest_full_path local_file file_size s
         else
           (case read local_file None s of
              (Inl e, s1) \<Rightarrow> Some (Inl e, s1)
            | (Inr d, s1) \<Rightarrow>
                (case auto_retry (upload_call dbx d dest_full_path) s1 of
                   None \<Rightarrow> None
                 | Some (Inl e, s2) \<Rightarrow> Some (Inl e, s2)
                 | Some (Inr metadata, s2) \<Rightarrow> Some (Inr (path_lower metadata), s2))))
      of
        None \<Rightarrow> None
      | Some (Inr p, s1) \<Rightarrow> Some (Inr (Some p), s1)
      | Some (Inl (ApiError x), s1) \<Rightarrow> Some (Inr None, print (NotLoadedApiError x) s1)
      | Some (Inl OSError, s1) \<Rightarrow> Some (Inl OSError, print FileReadFailed s1)
      | Some (Inl e, s1) \<Rightarrow> Some (Inl e, s1))"

text \<open>The last statement of \<^verbatim>\<open>upload\<close>: \<^verbatim>\<open>if is_delete: ... os.remove(local_full_path)\<close>.\<close>

definition delete_step :: "bool \<Rightarrow> 'w state \<Rightarrow> ((exn + unit) \<times> 'w state) option" where
  "delete_step is_delete s =
     (if is_delete then Some (Inr (), emit Remove (print DeletingFile s)) else Some (Inr (), s))"

text \<open>The \<^verbatim>\<open>else\<close> branch of \<^verbatim>\<open>upload\<close>: the transfer inside \<^verbatim>\<open>stopwatch\<close>, whose
  \<^verbatim>\<open>finally\<close> prints the elapsed time also when the block raises, then the early return
  when \<^verbatim>\<open>uploaded_full_path\<close> is \<^verbatim>\<open>None\<close> or empty, and the size verification.\<close>

definition upload_branch ::
  "bool \<Rightarrow> 'w dropbox \<Rightarrow> string \<Rightarrow> local_file \<Rightarrow> nat \<Rightarrow> 'w state
     \<Rightarrow> ((exn + unit) \<times> 'w state) option" where
  "upload_branch is_delete dbx dest_full_path local_file file_size s =
     (case transfer dbx dest_full_path local_file file_size s of
        None \<Rightarrow> None
      | Some (Inl e, s1) \<Rightarrow> Some (Inl e, print TotalElapsedTime s1)
      | Some (Inr uploaded_full_path, s1) \<Rightarrow>
          (let s2 = print TotalElapsedTime s1 in
           if uploaded_full_path = None \<or> uploaded_full_path = Some [] then Some (Inr (), s2)
           else
             (case get_server_file_size dbx (the uploaded_full_path) s2 of
                (Inl e, s3) \<Rightarrow> Some (Inl e, s3)
              | (Inr uploaded_size, s3) \<Rightarrow>
                  if uploaded_size \<noteq> file_size then Some (Inl PlainException, s3)
                  else delete_step is_delete s3)))"

definition skip_branch :: "bool \<Rightarrow> string \<Rightarrow> 'w state \<Rightarrow> ((exn + unit) \<times> 'w state) option" where
  "skip_branch is_delete dest_full_path s =
     delete_step is_delete (print (AlreadyExists dest_full_path) s)"

text \<open>
  \<^verbatim>\<open>upload\<close>, for one task \<^verbatim>\<open>(is_delete, dbx, path, file_name, server_path)\<close>. What the
  function obtains from the local file system is given: \<open>file_size\<close> is the value of
  \<^verbatim>\<open>os.path.getsize\<close>, \<open>extraction\<close> the outcome of the extraction of the capture time
  from the file, and \<open>local_file\<close> the file as \<^verbatim>\<open>open\<close> returns it, at position 0. \<open>w\<close>
  is the state of the remote side when the task starts. The call of
  \<^verbatim>\<open>_get_svr_path_from_metadata\<close> comes before the first lookup and is not inside any
  \<^verbatim>\<open>try\<close>, so an exception of the extraction leaves \<^verbatim>\<open>upload\<close> at once. The condition of
  the \<^verbatim>\<open>if\<close> is evaluated left to right with Python's short-circuit \<^verbatim>\<open>or\<close> and
  \<^verbatim>\<open>and\<close>.
\<close>

definition upload ::
  "bool \<Rightarrow> 'w dropbox \<Rightarrow> string \<Rightarrow> string \<Rightarrow> exn + datetime option \<Rightarrow> local_file \<Rightarrow> nat \<Rightarrow> 'w
     \<Rightarrow> ((exn + unit) \<times> 'w state) option" where
  "upload is_delete dbx file_name server_path extraction local_file file_size w =
     (let dest_full_path = server_path @ ''/'' @ file_name in
      case get_svr_path_from_metadata extraction file_name \<lparr>world = w, tell = 0, trace = []\<rparr> of
        (Inl e, s1) \<Rightarrow> Some (Inl e, s1)
      | (Inr meta_svr_path, s1) \<Rightarrow>
          (case get_server_file_size dbx dest_full_path s1 of
             (Inl e, s2) \<Rightarrow> Some (Inl e, s2)
           | (Inr n, s2) \<Rightarrow>
               if n = file_size then skip_branch is_delete dest_full_path s2
               else
                 (case meta_svr_path of
                    None \<Rightarrow> upload_branch is_delete dbx dest_full_path local_file file_size s2
                  | Some p \<Rightarrow>
                      (case get_server_file_size dbx p s2 of
                         (Inl e, s3) \<Rightarrow> Some (Inl e, s3)
                       | (Inr m, s3) \<Rightarrow>
                           if m = file_size then skip_branch is_delete dest_full_path s3
                           else upload_branch is_delete dbx dest_full_path local_file file_size s3))))"

section \<open>The relocation of one remote object\<close>

definition fix_file :: "'w dropbox \<Rightarrow> entry \<Rightarrow> 'w state \<Rightarrow> (exn + unit) \<times> 'w state" where
  "fix_file dbx metadata s =
     (case metadata of
        FileMetadata m \<Rightarrow>
          (case media_info m of
             Some (MediaMetadata time_taken) \<Rightarrow>
               (case time_taken of
                  None \<Rightarrow> (Inr (), s)
                | Some t \<Rightarrow>
                    (let dest = photos_path t (name m);
                         src = path_lower m
                     in case move_call dbx src dest (print (MovingFromTo src dest) s) of
                          (Inl (ApiError x), s1) \<Rightarrow> (Inr (), print (SkippingMove src) s1)
                        | (Inl e, s1) \<Rightarrow> (Inl e, s1)
                        | (Inr u, s1) \<Rightarrow> (Inr (), s1)))
           | _ \<Rightarrow> (Inr (), print TypeOf s))
      | _ \<Rightarrow> (Inr (), print TypeOf s))"

section \<open>Observations on a trace\<close>

text \<open>The requests that carry file content to the remote store.\<close>

fun upload_request :: "request \<Rightarrow> bool" where
  "upload_request (FilesUpload d p) = True"
| "upload_request (SessionStart d) = True"
| "upload_request (SessionAppend d sid off) = True"
| "upload_request (SessionFinish d c ci) = True"
| "upload_request (FilesGetMetadata p) = False"
| "upload_request (FilesMove src dest) = False"

fun is_upload_attempt :: "event \<Rightarrow> bool" where
  "is_upload_attempt (Attempt req out) = upload_request req"
| "is_upload_attempt ReadError = False"
| "is_upload_attempt (Print m) = False"
| "is_upload_attempt Remove = False"

definition upload_issued :: "event list \<Rightarrow> bool" where
  "upload_issued tr = list_ex is_upload_attempt tr"

fun is_already_exists :: "event \<Rightarrow> bool" where
  "is_already_exists (Print (AlreadyExists p)) = True"
| "is_already_exists e = False"

definition declared_present :: "event list \<Rightarrow> bool" where
  "declared_present tr = list_ex is_already_exists tr"

text \<open>An upload request that the remote store rejected with an \<^verbatim>\<open>ApiError\<close>.\<close>

fun is_api_rejection :: "event \<Rightarrow> bool" where
  "is_api_rejection (Attempt req (Inl (ApiError x))) = upload_request req"
| "is_api_rejection e = False"

definition api_rejected :: "event list \<Rightarrow> bool" where
  "api_rejected tr = list_ex is_api_rejection tr"

text \<open>The requests that returned, in order.\<close>

fun completed :: "event list \<Rightarrow> request list" where
  "completed [] = []"
| "completed (Attempt req (Inr v) # es) = req # completed es"
| "completed (e # es) = completed es"

text \<open>All the requests attempted, in order.\<close>

fun attempted :: "event list \<Rightarrow> request list" where
  "attempted [] = []"
| "attempted (Attempt req out # es) = req # attempted es"
| "attempted (e # es) = attempted es"

text \<open>The size that \<^verbatim>\<open>_get_server_file_size\<close> reads off the outcome of a metadata
  lookup, when it returns one.\<close>

fun reported_size :: "exn + reply \<Rightarrow> nat option" where
  "reported_size (Inr (GotEntry (FileMetadata m))) = Some (size_bytes m)"
| "reported_size (Inl (ApiError x)) = Some 0"
| "reported_size out = None"

text \<open>The events that one call through \<^verbatim>\<open>_auto_retry\<close> of the request \<open>req\<close> can add,
  and the events that the \<^verbatim>\<open>try\<close> block of \<^verbatim>\<open>upload\<close> can add.\<close>

fun retry_event :: "request \<Rightarrow> event \<Rightarrow> bool" where
  "retry_event req (Attempt req' out) = (req' = req)"
| "retry_event req (Print ErrorFailedOperation) = True"
| "retry_event req (Print (WarningNetworkError k)) = True"
| "retry_event req e = False"

fun transfer_event :: "event \<Rightarrow> bool" where
  "transfer_event (Attempt req out) = upload_request req"
| "transfer_event ReadError = True"
| "transfer_event (Print ErrorFailedOperation) = True"
| "transfer_event (Print (WarningNetworkError k)) = True"
| "transfer_event (Print (UploadedBytes n)) = True"
| "transfer_event (Print (NotLoadedApiError x)) = True"
| "transfer_event (Print FileReadFailed) = True"
| "transfer_event e = False"

section \<open>Remote stores used as examples\<close>

text \<open>A remote side without state of its own: the metadata lookup answers by path, every
  other method gives a fixed answer.\<close>

definition fixed_dbx ::
  "(string \<Rightarrow> exn + entry) \<Rightarrow> (exn + file_metadata) \<Rightarrow> (exn + string) \<Rightarrow> (exn + unit)
     \<Rightarrow> (exn + file_metadata) \<Rightarrow> (exn + unit) \<Rightarrow> unit dropbox" where
  "fixed_dbx lookup up start app fin mv =
     \<lparr>files_get_metadata = (\<lambda>p w. (lookup p, w)),
      files_upload = (\<lambda>d p w. (up, w)),
      files_upload_session_start = (\<lambda>d w. (start, w)),
      files_upload_session_append = (\<lambda>d sid off w. (app, w)),
      files_upload_session_finish = (\<lambda>d c ci w. (fin, w)),
      files_move = (\<lambda>src dest w. (mv, w))\<rparr>"

definition a_file :: "string \<Rightarrow> nat \<Rightarrow> file_metadata" where
  "a_file p n = \<lparr>name = p, path_lower = p, size_bytes = n, media_info = None\<rparr>"

text \<open>A remote store that holds nothing and accepts every request.\<close>

definition empty_dbx :: "unit dropbox" where
  "empty_dbx =
     fixed_dbx (\<lambda>p. Inl (ApiError ''not_found'')) (Inr (a_file ''/photos/a.jpg'' 5))
       (Inr ''sid'') (Inr ()) (Inr (a_file ''/photos/a.jpg'' 5)) (Inr ())"

text \<open>A remote side that cannot be reached: every call raises \<^verbatim>\<open>ConnectionError\<close>.\<close>

definition reset_dbx :: "unit dropbox" where
  "reset_dbx =
     fixed_dbx (\<lambda>p. Inl ConnectionError) (Inl ConnectionError) (Inl ConnectionError)
       (Inl ConnectionError) (Inl ConnectionError) (Inl ConnectionError)"

text \<open>A remote store kept in memory: the size of the object at each path, and the bytes
  received by the open upload session. An upload to an occupied path is renamed, and an
  append or a finish at an offset other than the bytes received is rejected.\<close>

record store =
  objects :: "(string \<times> nat) list"
  session :: nat

definition free_path :: "store \<Rightarrow> string \<Rightarrow> string" where
  "free_path w p = (if map_of (objects w) p = None then p else p @ '' (1)'')"

definition memory_dbx :: "store dropbox" where
  "memory_dbx =
     \<lparr>files_get_metadata = (\<lambda>p w.
        (case map_of (objects w) p of
           None \<Rightarrow> Inl (ApiError ''not_found'')
         | Some n \<Rightarrow> Inr (FileMetadata (a_file p n)), w)),
      files_upload = (\<lambda>d p w.
        (Inr (a_file (free_path w p) (count d)),
         w\<lparr>objects := (free_path w p, count d) # objects w\<rparr>)),
      files_upload_session_start = (\<lambda>d w. (Inr ''session'', w\<lparr>session := count d\<rparr>)),
      files_upload_session_append = (\<lambda>d sid off w.
        if off = session w then (Inr (), w\<lparr>session := session w + count d\<rparr>)
        else (Inl (ApiError ''incorrect_offset''), w)),
      files_upload_session_finish = (\<lambda>d c ci w.
        if offset c = session w
        then (Inr (a_file (free_path w (path ci)) (session w + count d)),
              w\<lparr>objects := (free_path w (path ci), session w + count d) # objects w,
                session := 0\<rparr>)
        else (Inl (ApiError ''incorrect_offset''), w)),
      files_move = (\<lambda>src dest w.
        (case map_of (objects w) src of
           None \<Rightarrow> (Inl (ApiError ''not_found''), w)
         | Some n \<Rightarrow>
             (Inr (), w\<lparr>objects := (dest, n) # filter (\<lambda>q. fst q \<noteq> src) (objects w)\<rparr>)))\<rparr>"

text \<open>A remote store that holds nothing and has no space left: uploads are rejected.\<close>

definition full_dbx :: "unit dropbox" where
  "full_dbx =
     fixed_dbx (\<lambda>p. Inl (ApiError ''not_found'')) (Inl (ApiError ''insufficient_space''))
       (Inr ''session'') (Inl (ApiError ''insufficient_space''))
       (Inl (ApiError ''insufficient_space'')) (Inr ())"

text \<open>A remote store that rejects every metadata lookup and accepts uploads.\<close>

definition forbidden_dbx :: "unit dropbox" where
  "forbidden_dbx =
     fixed_dbx (\<lambda>p. Inl (ApiError ''no_permission'')) (Inr (a_file ''/photos/a.jpg'' 5))
       (Inr ''session'') (Inr ()) (Inr (a_file ''/photos/a.jpg'' 5)) (Inr ())"

text \<open>A remote side that holds a file of 5 bytes at every path, except that the lookup of
  the path \<open>bad\<close> fails on the network.\<close>

definition unreachable_at :: "string \<Rightarrow> unit dropbox" where
  "unreachable_at bad =
     fixed_dbx (\<lambda>p. if p = bad then Inl ConnectionError else Inr (FileMetadata (a_file p 5)))
       (Inr (a_file ''/photos/a.jpg'' 5)) (Inr ''session'') (Inr ())
       (Inr (a_file ''/photos/a.jpg'' 5)) (Inr ())"

section \<open>Notions used in the statements\<close>

text \<open>What one call through \<^verbatim>\<open>_auto_retry\<close> of the request \<open>req\<close> with result \<open>r\<close> adds to
  the trace: attempts of \<open>req\<close> and retry diagnostics only, at least one attempt, the
  request completed exactly when a value is returned, and an \<^verbatim>\<open>ApiError\<close> among the
  outcomes is the result.\<close>

definition retried :: "request \<Rightarrow> exn + 'a \<Rightarrow> event list \<Rightarrow> bool" where
  "retried req r tr \<longleftrightarrow>
     list_all (retry_event req) tr \<and>
     (\<exists>out. Attempt req out \<in> set tr) \<and>
     completed tr = (case r of Inl e \<Rightarrow> [] | Inr v \<Rightarrow> [req]) \<and>
     (\<forall>x. Attempt req (Inl (ApiError x)) \<in> set tr \<longrightarrow> r = Inl (ApiError x))"

text \<open>The capture time that a remote entry carries, if any: the entry is a file whose
  media info is present, is not pending, and has a time taken.\<close>

definition capture_time :: "entry \<Rightarrow> datetime option" where
  "capture_time e =
     (case e of
        FileMetadata m \<Rightarrow>
          (case media_info m of Some (MediaMetadata (Some t)) \<Rightarrow> Some t | _ \<Rightarrow> None)
      | _ \<Rightarrow> None)"

text \<open>Remote paths are compared without regard to case; \<^verbatim>\<open>path_lower\<close> is the path of an
  object in lower case.\<close>

definition lower_char :: "char \<Rightarrow> char" where
  "lower_char c =
     (let n = (of_char c :: nat) in if 65 \<le> n \<and> n \<le> 90 then char_of (n + 32) else c)"

text \<open>What the chunked upload adds to the trace when its result is \<open>r\<close>: events of the
  transfer only; a rejected upload request makes the result that \<^verbatim>\<open>ApiError\<close>, and a
  failed read makes it \<^verbatim>\<open>OSError\<close>.\<close>

definition chunked :: "exn + 'a \<Rightarrow> event list \<Rightarrow> bool" where
  "chunked r tr \<longleftrightarrow>
     list_all transfer_event tr \<and>
     (api_rejected tr \<longrightarrow> (\<exists>x. r = Inl (ApiError x))) \<and>
     (ReadError \<in> set tr \<longrightarrow> r = Inl OSError)"

text \<open>The same for the \<^verbatim>\<open>try\<close> block of \<^verbatim>\<open>upload\<close> with its handlers: a rejection is
  caught and printed, a failed read is printed and raised again, a returned path comes
  from an upload request, and the block either fails to read or issues an upload
  request.\<close>

definition transferred :: "exn + string option \<Rightarrow> event list \<Rightarrow> bool" where
  "transferred r tr \<longleftrightarrow>
     list_all transfer_event tr \<and>
     (api_rejected tr \<longrightarrow> r = Inr None \<and> (\<exists>x. Print (NotLoadedApiError x) \<in> set tr)) \<and>
     (ReadError \<in> set tr \<longrightarrow> r = Inl OSError \<and> Print FileReadFailed \<in> set tr) \<and>
     (\<forall>p. r = Inr (Some p) \<longrightarrow> upload_issued tr) \<and>
     (ReadError \<in> set tr \<or> upload_issued tr) \<and>
     (\<forall>x. r \<noteq> Inl (ApiError x))"

text \<open>The value of \<^verbatim>\<open>_get_server_file_size\<close> for a path when the remote side is in
  state \<open>w\<close>, and the state in which the lookup leaves the remote side.\<close>

definition server_file_size :: "'w dropbox \<Rightarrow> string \<Rightarrow> 'w \<Rightarrow> exn + nat" where
  "server_file_size dbx p w = fst (get_server_file_size dbx p \<lparr>world = w, tell = 0, trace = []\<rparr>)"

definition world_after :: "'w dropbox \<Rightarrow> string \<Rightarrow> 'w \<Rightarrow> 'w" where
  "world_after dbx p w = snd (files_get_metadata dbx p w)"

text \<open>The events before the \<^verbatim>\<open>if\<close> of \<^verbatim>\<open>upload\<close> is decided.\<close>

fun dedup_event :: "event \<Rightarrow> bool" where
  "dedup_event (Attempt (FilesGetMetadata p) out) = True"
| "dedup_event (Print FailedToGetMetadata) = True"
| "dedup_event e = False"

text \<open>The condition under which the specification declares the file already present:
  the remote size at the direct destination path equals the local size, or the capture
  time was extracted and the remote size at the canonical path, looked up next, equals
  it.\<close>

definition size_match ::
  "'w dropbox \<Rightarrow> string \<Rightarrow> string \<Rightarrow> datetime option \<Rightarrow> nat \<Rightarrow> 'w \<Rightarrow> bool" where
  "size_match dbx file_name server_path time_stamp file_size w \<longleftrightarrow>
     server_file_size dbx (server_path @ ''/'' @ file_name) w = Inr file_size \<or>
     (\<exists>t n. time_stamp = Some t \<and>
        server_file_size dbx (server_path @ ''/'' @ file_name) w = Inr n \<and>
        server_file_size dbx (photos_path t file_name)
          (world_after dbx (server_path @ ''/'' @ file_name) w) = Inr file_size)"

text \<open>The trace of a skipped task: lookups, the last of them reporting the local size,
  then the line that declares the file present, then the removal if requested.\<close>

definition skip_trace :: "bool \<Rightarrow> string \<Rightarrow> nat \<Rightarrow> event list \<Rightarrow> bool" where
  "skip_trace d dest fs tr \<longleftrightarrow>
     (\<exists>pre p out. tr = pre @ Attempt (FilesGetMetadata p) out # Print (AlreadyExists dest) #
                       (if d then [Print DeletingFile, Remove] else []) \<and>
        list_all dedup_event pre \<and> reported_size out = Some fs)"

text \<open>A task was skipped: it returned or raised, the file was declared already present
  and no upload request was attempted.\<close>

definition skipped :: "((exn + unit) \<times> 'w state) option \<Rightarrow> bool" where
  "skipped res =
     (case res of
        None \<Rightarrow> False
      | Some (r, s') \<Rightarrow> declared_present (trace s') \<and> \<not> upload_issued (trace s'))"

text \<open>The requests of an upload session after its start, for a file of \<open>fs\<close> bytes, when
  the cursor stands at \<open>cur\<close>: an append carries the session, the offset \<open>cur\<close> and the
  chunk of the file that starts there, is issued only while more than a chunk remains,
  and the next request is at the offset plus the bytes appended; the finish carries the
  cursor at \<open>cur\<close>, the commit and the rest of the file, is issued only when at most a
  chunk remains, and nothing follows it. A sequence cut short is allowed, so that the
  notion also describes an upload that was interrupted.\<close>

fun session_steps :: "nat \<Rightarrow> string \<Rightarrow> commit_info \<Rightarrow> nat \<Rightarrow> request list \<Rightarrow> bool" where
  "session_steps fs sid ci cur [] = True"
| "session_steps fs sid ci cur (SessionAppend d sid' off # rs) =
     (sid' = sid \<and> off = cur \<and> first d = cur \<and> count d = MAX_UPLOAD_CHUNK_SIZE \<and>
      MAX_UPLOAD_CHUNK_SIZE < fs - cur \<and> session_steps fs sid ci (off + count d) rs)"
| "session_steps fs sid ci cur (SessionFinish d c ci' # rs) =
     (c = \<lparr>session_id = sid, offset = cur\<rparr> \<and> ci' = ci \<and> first d = cur \<and>
      cur + count d = fs \<and> fs - cur \<le> MAX_UPLOAD_CHUNK_SIZE \<and> rs = [])"
| "session_steps fs sid ci cur (r # rs) = False"

fun is_finish :: "request \<Rightarrow> bool" where
  "is_finish (SessionFinish d c ci) = True"
| "is_finish r = False"

text \<open>The requests of a whole session: the start with the first chunk of the file, then
  the steps from the cursor that the start leaves.\<close>

definition chunked_session :: "nat \<Rightarrow> string \<Rightarrow> commit_info \<Rightarrow> request list \<Rightarrow> bool" where
  "chunked_session fs sid ci rs =
     (case rs of
        [] \<Rightarrow> True
      | SessionStart d # rs' \<Rightarrow>
          first d = 0 \<and> count d = MAX_UPLOAD_CHUNK_SIZE \<and>
          session_steps fs sid ci (count d) rs'
      | _ \<Rightarrow> False)"

text \<open>The appends of a sequence of requests, as pairs of offset and number of bytes, and
  what the specification asks of them: each offset is the previous offset plus the bytes
  appended there, and the offsets increase strictly.\<close>

fun appends :: "request list \<Rightarrow> (nat \<times> nat) list" where
  "appends [] = []"
| "appends (SessionAppend d sid off # rs) = (off, count d) # appends rs"
| "appends (r # rs) = appends rs"

fun contiguous :: "(nat \<times> nat) list \<Rightarrow> bool" where
  "contiguous [] = True"
| "contiguous [x] = True"
| "contiguous ((off1, n1) # (off2, n2) # xs) =
     (off2 = off1 + n1 \<and> off1 < off2 \<and> contiguous ((off2, n2) # xs))"

text \<open>A remote side that never raises on a request of an upload session.\<close>

definition accepts_all :: "'w dropbox \<Rightarrow> bool" where
  "accepts_all dbx \<longleftrightarrow>
     (\<forall>d w. \<exists>sid w'. files_upload_session_start dbx d w = (Inr sid, w')) \<and>
     (\<forall>d sid off w. \<exists>w'. files_upload_session_append dbx d sid off w = (Inr (), w')) \<and>
     (\<forall>d c ci w. \<exists>m w'. files_upload_session_finish dbx d c ci w = (Inr m, w'))"

section \<open>Basic facts\<close>

lemma emit_simps [simp]:
  "trace (emit e s) = trace s @ [e]" "tell (emit e s) = tell s" "world (emit e s) = world s"
  by (simp_all add: emit_def)

lemma print_simps [simp]:
  "trace (print m s) = trace s @ [Print m]" "tell (print m s) = tell s"
  "world (print m s) = world s"
  by (simp_all add: print_def)

lemma attempt_effect:
  "attempt req wrap f s = (r, s1) \<Longrightarrow>
     tell s1 = tell s \<and> trace s1 = trace s @ [Attempt req (map_sum id wrap r)]"
  by (auto simp: attempt_def split: prod.splits)

lemma attempted_append [simp]: "attempted (xs @ ys) = attempted xs @ attempted ys"
  by (induction xs rule: attempted.induct) simp_all

section \<open>The retry wrapper: what it adds to the trace\<close>

lemma retried_last_ok: "retried req (Inr v) [Attempt req (Inr w)]"
  by (simp add: retried_def)

lemma retried_last_raise: "\<not> network_error e \<Longrightarrow> retried req (Inl e) [Attempt req (Inl e)]"
  by (simp add: retried_def)

lemma retried_ceiling:
  "network_error e \<Longrightarrow>
     retried req (Inl AttributeError) [Attempt req (Inl e), Print ErrorFailedOperation]"
  by (auto simp add: retried_def network_error_def)

lemma retried_again:
  "network_error e \<Longrightarrow> retried req r tr \<Longrightarrow>
     retried req r (Attempt req (Inl e) # Print (WarningNetworkError k) # tr)"
  by (auto simp add: retried_def network_error_def)

lemma auto_retry_loop_effect:
  fixes func :: "'w state \<Rightarrow> (exn + 'a) \<times> 'w state"
  assumes "auto_retry_loop func rc s = Some y"
  shows "func = attempt req wrap f \<longrightarrow>
     tell (snd y) = tell s \<and> (\<exists>tr. trace (snd y) = trace s @ tr \<and> retried req (fst y) tr)"
proof (rule auto_retry_loop.raw_induct[where P = "\<lambda>func rc s y. func = attempt req wrap f \<longrightarrow>
     tell (snd y) = tell s \<and> (\<exists>tr. trace (snd y) = trace s @ tr \<and> retried req (fst y) tr)", OF _ assms])
  fix loop :: "('w state \<Rightarrow> (exn + 'a) \<times> 'w state) \<Rightarrow> nat \<Rightarrow> 'w state \<Rightarrow> ((exn + 'a) \<times> 'w state) option"
  fix func :: "'w state \<Rightarrow> (exn + 'a) \<times> 'w state" and rc s y
  assume IH: "\<And>func rc s y. loop func rc s = Some y \<Longrightarrow> func = attempt req wrap f \<longrightarrow>
     tell (snd y) = tell s \<and> (\<exists>tr. trace (snd y) = trace s @ tr \<and> retried req (fst y) tr)"
  assume body: "(case func s of
        (Inl e, s1) \<Rightarrow>
          if network_error e then
            (if rc + 1 = MAX_RETRY_COUNT_ON_NETWORK_ERROR
             then Some (Inl AttributeError, print ErrorFailedOperation s1)
             else loop func (rc + 1) (print (WarningNetworkError (rc + 1)) s1))
          else Some (Inl e, s1)
      | (Inr v, s1) \<Rightarrow> Some (Inr v, s1)) = Some y"
  show "func = attempt req wrap f \<longrightarrow>
     tell (snd y) = tell s \<and> (\<exists>tr. trace (snd y) = trace s @ tr \<and> retried req (fst y) tr)"
  proof
    assume fn: "func = attempt req wrap f"
    obtain r s1 where f: "func s = (r, s1)" by (cases "func s")
    from f fn have eff: "tell s1 = tell s" "trace s1 = trace s @ [Attempt req (map_sum id wrap r)]"
      using attempt_effect[of req wrap f s r s1] by simp_all
    show "tell (snd y) = tell s \<and> (\<exists>tr. trace (snd y) = trace s @ tr \<and> retried req (fst y) tr)"
    proof (cases r)
      case (Inr v)
      with body f have "y = (Inr v, s1)" by simp
      with eff Inr show ?thesis by (simp add: retried_last_ok)
    next
      case (Inl e)
      show ?thesis
      proof (cases "network_error e")
        case False
        with body f Inl have "y = (Inl e, s1)" by simp
        with eff Inl False show ?thesis by (simp add: retried_last_raise)
      next
        case True
        show ?thesis
        proof (cases "rc + 1 = MAX_RETRY_COUNT_ON_NETWORK_ERROR")
          case c: True
          with body f Inl True have "y = (Inl AttributeError, print ErrorFailedOperation s1)" by simp
          with eff Inl True show ?thesis by (simp add: retried_ceiling)
        next
          case c: False
          with body f Inl True have "loop func (rc + 1) (print (WarningNetworkError (rc + 1)) s1) = Some y"
            by simp
          from IH[OF this] fn obtain tr where
            t: "tell (snd y) = tell s1" "trace (snd y) = (trace s1 @ [Print (WarningNetworkError (rc + 1))]) @ tr"
               "retried req (fst y) tr"
            by auto
          from True t(3) have "retried req (fst y) (Attempt req (Inl e) # Print (WarningNetworkError (rc + 1)) # tr)"
            by (rule retried_again)
          with t eff Inl show ?thesis by simp
        qed
      qed
    qed
  qed
qed

lemma auto_retry_effect:
  "auto_retry (attempt req wrap f) s = Some (r, s') \<Longrightarrow>
     tell s' = tell s \<and> (\<exists>tr. trace s' = trace s @ tr \<and> retried req r tr)"
  using auto_retry_loop_effect[of "attempt req wrap f" 0 s "(r, s')" req wrap f]
  by (simp add: auto_retry_def)

text \<open>\<^verbatim>\<open>_auto_retry\<close> always returns or raises: it makes at most ten attempts.\<close>

lemma auto_retry_loop_total:
  "retry_count < MAX_RETRY_COUNT_ON_NETWORK_ERROR \<Longrightarrow>
     \<exists>y. auto_retry_loop func retry_count s = Some y"
proof (induction "MAX_RETRY_COUNT_ON_NETWORK_ERROR - retry_count" arbitrary: retry_count s)
  case 0
  then show ?case by simp
next
  case (Suc k)
  obtain r s1 where f: "func s = (r, s1)" by (cases "func s")
  show ?case
  proof (cases r)
    case (Inr v)
    with f show ?thesis by (subst auto_retry_loop.simps) simp
  next
    case (Inl e)
    show ?thesis
    proof (cases "network_error e \<and> retry_count + 1 \<noteq> MAX_RETRY_COUNT_ON_NETWORK_ERROR")
      case True
      with Suc.hyps(2) Suc.prems have "k = MAX_RETRY_COUNT_ON_NETWORK_ERROR - (retry_count + 1)"
        and "retry_count + 1 < MAX_RETRY_COUNT_ON_NETWORK_ERROR" by auto
      from Suc.hyps(1)[OF this] obtain y where
        "auto_retry_loop func (retry_count + 1) (print (WarningNetworkError (retry_count + 1)) s1)
           = Some y"
        by blast
      with f Inl True show ?thesis by (subst auto_retry_loop.simps) simp
    next
      case False
      with f Inl show ?thesis by (subst auto_retry_loop.simps) auto
    qed
  qed
qed

lemma auto_retry_total: "\<exists>r s'. auto_retry func s = Some (r, s')"
  using auto_retry_loop_total[of 0 func s]
  by (auto simp: auto_retry_def MAX_RETRY_COUNT_ON_NETWORK_ERROR_def)

text \<open>A value is returned as it is, and an exception that is not a network error is
  raised again at once, after this one attempt.\<close>

lemma auto_retry_returns: "func s = (Inr v, s1) \<Longrightarrow> auto_retry func s = Some (Inr v, s1)"
  by (simp add: auto_retry_def auto_retry_loop.simps)

lemma auto_retry_no_retry:
  "func s = (Inl e, s1) \<Longrightarrow> \<not> network_error e \<Longrightarrow> auto_retry func s = Some (Inl e, s1)"
  by (simp add: auto_retry_def auto_retry_loop.simps)

section \<open>The transfer: what it adds to the trace\<close>

lemma read_raises:
  "read f n s = (Inl e, s1) \<Longrightarrow> e = OSError \<and> s1 = emit ReadError s"
  by (auto simp: read_def Let_def split: if_splits)

lemma read_returns:
  "read f n s = (Inr d, s1) \<Longrightarrow>
     trace s1 = trace s \<and> world s1 = world s \<and> first d = tell s \<and> tell s1 = tell s + count d \<and>
     count d = (case n of None \<Rightarrow> content_size f - tell s | Some k \<Rightarrow> min k (content_size f - tell s))"
  by (auto simp: read_def Let_def split: if_splits)

lemma is_api_rejection_iff:
  "is_api_rejection e \<longleftrightarrow> (\<exists>req x. e = Attempt req (Inl (ApiError x)) \<and> upload_request req)"
  by (cases e rule: is_api_rejection.cases) auto

lemma retry_event_transfer: "upload_request req \<Longrightarrow> retry_event req e \<Longrightarrow> transfer_event e"
  by (cases "(req, e)" rule: retry_event.cases) auto

lemma retry_event_not_read: "\<not> retry_event req ReadError"
  by simp

lemma retried_api_rejected:
  "retried req r tr \<Longrightarrow> api_rejected tr \<Longrightarrow> \<exists>x. r = Inl (ApiError x)"
  by (fastforce simp: retried_def api_rejected_def list_ex_iff list_all_iff is_api_rejection_iff)

lemma retried_no_read: "retried req r tr \<Longrightarrow> ReadError \<notin> set tr"
  by (auto simp: retried_def list_all_iff)

lemma retried_transfer: "upload_request req \<Longrightarrow> retried req r tr \<Longrightarrow> list_all transfer_event tr"
  by (auto simp: retried_def list_all_iff intro: retry_event_transfer)

lemma chunked_Nil: "chunked (Inr v) []"
  by (simp add: chunked_def api_rejected_def)

lemma chunked_read: "chunked (Inl OSError) [ReadError]"
  by (simp add: chunked_def api_rejected_def)

lemma chunked_fail:
  "upload_request req \<Longrightarrow> retried req (Inl e) tr \<Longrightarrow> chunked (Inl e) tr"
  using retried_api_rejected[of req "Inl e" tr] retried_no_read[of req "Inl e" tr]
    retried_transfer[of req "Inl e" tr]
  by (auto simp: chunked_def)

lemma chunked_step:
  assumes "upload_request req" "retried req (Inr v) tr1" "chunked r tr2"
  shows "chunked r (tr1 @ Print (UploadedBytes n) # tr2)"
proof -
  from assms(2) have "\<not> api_rejected tr1" using retried_api_rejected by fastforce
  moreover from assms(2) have "ReadError \<notin> set tr1" by (rule retried_no_read)
  moreover from assms(1,2) have "list_all transfer_event tr1" by (rule retried_transfer)
  ultimately show ?thesis using assms(3)
    by (auto simp: chunked_def api_rejected_def)
qed

lemma session_finish_effect:
  "auto_retry (session_finish dbx d c ci) s = Some (r, s') \<Longrightarrow>
     tell s' = tell s \<and> (\<exists>tr. trace s' = trace s @ tr \<and> retried (SessionFinish d c ci) r tr)"
  unfolding session_finish_def by (rule auto_retry_effect)

lemma session_append_effect:
  "auto_retry (session_append dbx d sid off) s = Some (r, s') \<Longrightarrow>
     tell s' = tell s \<and> (\<exists>tr. trace s' = trace s @ tr \<and> retried (SessionAppend d sid off) r tr)"
  unfolding session_append_def by (rule auto_retry_effect)

lemma session_start_effect:
  "auto_retry (session_start dbx d) s = Some (r, s') \<Longrightarrow>
     tell s' = tell s \<and> (\<exists>tr. trace s' = trace s @ tr \<and> retried (SessionStart d) r tr)"
  unfolding session_start_def by (rule auto_retry_effect)

lemma upload_call_effect:
  "auto_retry (upload_call dbx d p) s = Some (r, s') \<Longrightarrow>
     tell s' = tell s \<and> (\<exists>tr. trace s' = trace s @ tr \<and> retried (FilesUpload d p) r tr)"
  unfolding upload_call_def by (rule auto_retry_effect)

lemma chunk_upload_loop_events:
  assumes "chunk_upload_loop dbx f fs c ci up s = Some y"
  shows "\<exists>tr. trace (snd y) = trace s @ tr \<and> chunked (fst y) tr"
proof (rule chunk_upload_loop.raw_induct[where P = "\<lambda>dbx f fs c ci up s y.
     \<exists>tr. trace (snd y) = trace s @ tr \<and> chunked (fst y) tr", OF _ assms], goal_cases)
  case (1 loop dbx f fs c ci up s y)
  show ?case
  proof (cases "tell s < fs")
    case False
    with 1(2) have "y = (Inr up, s)" by simp
    then show ?thesis by (simp add: chunked_Nil)
  next
    case True
    obtain rd s1 where rd: "read f (Some MAX_UPLOAD_CHUNK_SIZE) s = (rd, s1)"
      by (cases "read f (Some MAX_UPLOAD_CHUNK_SIZE) s")
    show ?thesis
    proof (cases rd)
      case (Inl e)
      with rd read_raises[of f _ s e s1] have "e = OSError" "s1 = emit ReadError s" by auto
      with 1(2) True rd Inl have "y = (Inl OSError, emit ReadError s)"
        by (simp split: if_splits)
      then show ?thesis by (simp add: chunked_read)
    next
      case (Inr d)
      with rd read_returns[of f _ s d s1] have tr1: "trace s1 = trace s" by simp
      show ?thesis
      proof (cases "fs - tell s \<le> MAX_UPLOAD_CHUNK_SIZE")
        case fin: True
        with 1(2) True rd Inr obtain r s2 where
          ar: "auto_retry (session_finish dbx d c ci) s1 = Some (r, s2)"
          by (auto split: option.splits)
        from session_finish_effect[OF ar] obtain tr where
          tr: "trace s2 = trace s1 @ tr" "retried (SessionFinish d c ci) r tr" by auto
        show ?thesis
        proof (cases r)
          case e: (Inl e)
          with 1(2) True rd Inr fin ar have "y = (Inl e, s2)" by simp
          with tr tr1 e chunked_fail[of "SessionFinish d c ci" e tr] show ?thesis by simp
        next
          case m: (Inr m)
          with 1(2) True rd Inr fin ar have
            "loop dbx f fs c ci (path_lower m) (print (UploadedBytes (offset c)) s2) = Some y"
            by simp
          from 1(1)[OF this] obtain tr' where
            "trace (snd y) = (trace s2 @ [Print (UploadedBytes (offset c))]) @ tr'" "chunked (fst y) tr'"
            by auto
          with tr tr1 m chunked_step[of "SessionFinish d c ci" m tr "fst y" tr' "offset c"]
          show ?thesis by simp
        qed
      next
        case app: False
        with 1(2) True rd Inr obtain r s2 where
          ar: "auto_retry (session_append dbx d (session_id c) (offset c)) s1 = Some (r, s2)"
          by (auto split: option.splits)
        from session_append_effect[OF ar] obtain tr where
          tr: "trace s2 = trace s1 @ tr" "retried (SessionAppend d (session_id c) (offset c)) r tr"
          by auto
        show ?thesis
        proof (cases r)
          case e: (Inl e)
          with 1(2) True rd Inr app ar have "y = (Inl e, s2)" by simp
          with tr tr1 e chunked_fail[of "SessionAppend d (session_id c) (offset c)" e tr]
          show ?thesis by simp
        next
          case u: (Inr u)
          with 1(2) True rd Inr app ar have
            "loop dbx f fs (c\<lparr>offset := tell s2\<rparr>) ci up (print (UploadedBytes (tell s2)) s2) = Some y"
            by simp
          from 1(1)[OF this] obtain tr' where
            "trace (snd y) = (trace s2 @ [Print (UploadedBytes (tell s2))]) @ tr'" "chunked (fst y) tr'"
            by auto
          with tr tr1 u
            chunked_step[of "SessionAppend d (session_id c) (offset c)" u tr "fst y" tr' "tell s2"]
          show ?thesis by simp
        qed
      qed
    qed
  qed
qed

lemma upload_issued_append [simp]:
  "upload_issued (xs @ ys) \<longleftrightarrow> upload_issued xs \<or> upload_issued ys"
  by (simp add: upload_issued_def)

lemma api_rejected_append [simp]:
  "api_rejected (xs @ ys) \<longleftrightarrow> api_rejected xs \<or> api_rejected ys"
  by (simp add: api_rejected_def)

lemma retried_upload_issued: "upload_request req \<Longrightarrow> retried req r tr \<Longrightarrow> upload_issued tr"
proof -
  assume u: "upload_request req" and "retried req r tr"
  then obtain out where "Attempt req out \<in> set tr" by (auto simp: retried_def)
  moreover from u have "is_upload_attempt (Attempt req out)" by simp
  ultimately show ?thesis unfolding upload_issued_def list_ex_iff by blast
qed

lemma chunked_ok: "upload_request req \<Longrightarrow> retried req (Inr v) tr \<Longrightarrow> chunked (Inr u) tr"
  using retried_api_rejected[of req "Inr v" tr] retried_no_read[of req "Inr v" tr]
    retried_transfer[of req "Inr v" tr]
  by (auto simp: chunked_def)

lemma chunked_seq:
  assumes "upload_request req" "retried req (Inr v) tr1" "chunked r tr2"
  shows "chunked r (tr1 @ tr2)"
proof -
  from assms(2) have "\<not> api_rejected tr1" using retried_api_rejected by fastforce
  moreover from assms(2) have "ReadError \<notin> set tr1" by (rule retried_no_read)
  moreover from assms(1,2) have "list_all transfer_event tr1" by (rule retried_transfer)
  ultimately show ?thesis using assms(3)
    by (auto simp: chunked_def)
qed

lemma chunk_upload_events:
  assumes "chunk_upload dbx p f fs s = Some (r, s')"
  shows "\<exists>tr. trace s' = trace s @ tr \<and> chunked r tr \<and> (ReadError \<in> set tr \<or> upload_issued tr)"
proof -
  obtain rd s1 where rd: "read f (Some MAX_UPLOAD_CHUNK_SIZE) s = (rd, s1)"
    by (cases "read f (Some MAX_UPLOAD_CHUNK_SIZE) s")
  show ?thesis
  proof (cases rd)
    case (Inl e)
    with rd read_raises[of f _ s e s1] have "e = OSError" "s1 = emit ReadError s" by auto
    with assms rd Inl have "r = Inl OSError" "s' = emit ReadError s"
      by (simp_all add: chunk_upload_def)
    then show ?thesis by (simp add: chunked_read)
  next
    case (Inr d)
    with rd read_returns[of f _ s d s1] have tr1: "trace s1 = trace s" by simp
    from assms rd Inr obtain r2 s2 where
      ar: "auto_retry (session_start dbx d) s1 = Some (r2, s2)"
      by (auto simp: chunk_upload_def split: option.splits)
    from session_start_effect[OF ar] obtain tr where
      tr: "trace s2 = trace s1 @ tr" "retried (SessionStart d) r2 tr" by auto
    then have ui: "upload_issued tr" using retried_upload_issued[of "SessionStart d" r2 tr] by simp
    show ?thesis
    proof (cases r2)
      case e: (Inl e)
      with assms rd Inr ar have "r = Inl e" "s' = s2" by (simp_all add: chunk_upload_def)
      with tr tr1 e ui chunked_fail[of "SessionStart d" e tr] show ?thesis by simp
    next
      case sid: (Inr sid)
      with assms rd Inr ar have
        "chunk_upload_loop dbx f fs \<lparr>session_id = sid, offset = tell s2\<rparr>
           \<lparr>path = p, autorename = True, mode = Add\<rparr> [] s2 = Some (r, s')"
        by (simp add: chunk_upload_def)
      from chunk_upload_loop_events[OF this] obtain tr' where
        "trace s' = trace s2 @ tr'" "chunked r tr'" by auto
      with tr tr1 sid ui chunked_seq[of "SessionStart d" sid tr r tr'] show ?thesis by auto
    qed
  qed
qed

lemma transferred_cases:
  assumes "chunked ri tr" "ReadError \<in> set tr \<or> upload_issued tr"
  shows "\<And>p. ri = Inr p \<Longrightarrow> transferred (Inr (Some p)) tr"
    and "\<And>x. ri = Inl (ApiError x) \<Longrightarrow> transferred (Inr None) (tr @ [Print (NotLoadedApiError x)])"
    and "ri = Inl OSError \<Longrightarrow> transferred (Inl OSError) (tr @ [Print FileReadFailed])"
    and "\<And>e. ri = Inl e \<Longrightarrow> e \<noteq> OSError \<Longrightarrow> \<forall>x. e \<noteq> ApiError x \<Longrightarrow> transferred (Inl e) tr"
  using assms by (auto simp: transferred_def chunked_def api_rejected_def upload_issued_def)

lemma transfer_events:
  assumes "transfer dbx p f fs s = Some (r, s')"
  shows "\<exists>tr. trace s' = trace s @ tr \<and> transferred r tr"
proof -
  define inner where "inner =
        (if fs > MAX_UPLOAD_CHUNK_SIZE
         then chunk_upload dbx p f fs s
         else
           (case read f None s of
              (Inl e, s1) \<Rightarrow> Some (Inl e, s1)
            | (Inr d, s1) \<Rightarrow>
                (case auto_retry (upload_call dbx d p) s1 of
                   None \<Rightarrow> None
                 | Some (Inl e, s2) \<Rightarrow> Some (Inl e, s2)
                 | Some (Inr metadata, s2) \<Rightarrow> Some (Inr (path_lower metadata), s2))))"
  from assms obtain ri si where inner: "inner = Some (ri, si)"
    by (cases inner) (auto simp: transfer_def inner_def)
  have ev: "\<exists>tr. trace si = trace s @ tr \<and> chunked ri tr \<and> (ReadError \<in> set tr \<or> upload_issued tr)"
  proof (cases "fs > MAX_UPLOAD_CHUNK_SIZE")
    case True
    with inner have "chunk_upload dbx p f fs s = Some (ri, si)" by (simp add: inner_def)
    then show ?thesis by (rule chunk_upload_events)
  next
    case False
    obtain rd s1 where rd: "read f None s = (rd, s1)" by (cases "read f None s")
    show ?thesis
    proof (cases rd)
      case (Inl e)
      with rd read_raises[of f _ s e s1] have "e = OSError" "s1 = emit ReadError s" by auto
      with inner False rd Inl have "ri = Inl OSError" "si = emit ReadError s"
        by (simp_all add: inner_def)
      then show ?thesis by (simp add: chunked_read)
    next
      case (Inr d)
      with rd read_returns[of f _ s d s1] have tr1: "trace s1 = trace s" by simp
      from inner False rd Inr obtain r2 s2 where
        ar: "auto_retry (upload_call dbx d p) s1 = Some (r2, s2)"
        by (auto simp: inner_def split: option.splits)
      from upload_call_effect[OF ar] obtain tr where
        tr: "trace s2 = trace s1 @ tr" "retried (FilesUpload d p) r2 tr" by auto
      then have ui: "upload_issued tr" using retried_upload_issued[of "FilesUpload d p" r2 tr] by simp
      show ?thesis
      proof (cases r2)
        case e: (Inl e)
        with inner False rd Inr ar have "ri = Inl e" "si = s2" by (simp_all add: inner_def)
        with tr tr1 e ui chunked_fail[of "FilesUpload d p" e tr] show ?thesis by simp
      next
        case m: (Inr m)
        with inner False rd Inr ar have "ri = Inr (path_lower m)" "si = s2"
          by (simp_all add: inner_def)
        with tr tr1 m ui chunked_ok[of "FilesUpload d p" m tr "path_lower m"] show ?thesis by simp
      qed
    qed
  qed
  then obtain tr where tr: "trace si = trace s @ tr" "chunked ri tr"
    "ReadError \<in> set tr \<or> upload_issued tr" by auto
  note tc = transferred_cases[OF tr(2,3)]
  from assms inner have out:
    "(case ri of Inr q \<Rightarrow> Some (Inr (Some q), si)
       | Inl (ApiError x) \<Rightarrow> Some (Inr None, print (NotLoadedApiError x) si)
       | Inl OSError \<Rightarrow> Some (Inl OSError, print FileReadFailed si)
       | Inl e \<Rightarrow> Some (Inl e, si)) = Some (r, s')"
    by (simp add: transfer_def inner_def[symmetric] split: sum.splits exn.splits)
  show ?thesis
  proof (cases ri)
    case (Inr q)
    with out tr tc(1)[OF Inr] show ?thesis by auto
  next
    case (Inl e)
    show ?thesis
    proof (cases "e = OSError \<or> (\<exists>x. e = ApiError x)")
      case True
      then show ?thesis
      proof
        assume "e = OSError"
        with Inl out tr tc(3) show ?thesis by auto
      next
        assume "\<exists>x. e = ApiError x"
        then obtain x where "e = ApiError x" ..
        with Inl out tr tc(2)[of x] show ?thesis by auto
      qed
    next
      case False
      with Inl out have "r = Inl e" "s' = si" by (cases e; simp)+
      with False Inl tr tc(4)[of e] show ?thesis by auto
    qed
  qed
qed

lemma get_server_file_size_effect:
  assumes "get_server_file_size dbx p s = (r, s1)"
  shows "\<exists>out. trace s1 = trace s @ [Attempt (FilesGetMetadata p) out] \<and> tell s1 = tell s \<and>
           world s1 = world_after dbx p (world s) \<and>
           r = server_file_size dbx p (world s) \<and>
           (case r of Inr n \<Rightarrow> reported_size out = Some n
            | Inl e \<Rightarrow> reported_size out = None \<and> (\<forall>x. e \<noteq> ApiError x))"
  using assms
  by (auto simp: get_server_file_size_def get_metadata_def attempt_def server_file_size_def
      world_after_def split: prod.splits sum.splits entry.splits exn.splits)

lemma upload_branch_cases:
  assumes "upload_branch d dbx dest f fs s = Some (r, s')"
  obtains
    (aborted) tr rt where "trace s' = trace s @ tr @ [Print TotalElapsedTime]" "transferred rt tr"
      "case rt of Inl e \<Rightarrow> r = Inl e | Inr q \<Rightarrow> r = Inr () \<and> (q = None \<or> q = Some [])"
  | (checked) tr p out where
      "trace s' = trace s @ tr @ [Print TotalElapsedTime, Attempt (FilesGetMetadata p) out]"
      "transferred (Inr (Some p)) tr"
      "case reported_size out of
         None \<Rightarrow> \<exists>e. r = Inl e \<and> (\<forall>x. e \<noteq> ApiError x)
       | Some n \<Rightarrow> if n = fs then r = Inr () \<and> \<not> d else r = Inl PlainException"
  | (deleted) tr p out where
      "trace s' = trace s @ tr @
         [Print TotalElapsedTime, Attempt (FilesGetMetadata p) out, Print DeletingFile, Remove]"
      "transferred (Inr (Some p)) tr" "reported_size out = Some fs" "r = Inr ()" "d"
proof -
  from assms obtain rt st where t: "transfer dbx dest f fs s = Some (rt, st)"
    by (auto simp: upload_branch_def split: option.splits)
  from transfer_events[OF t] obtain tr where tr: "trace st = trace s @ tr" "transferred rt tr"
    by auto
  show thesis
  proof (cases "\<exists>p. rt = Inr (Some p) \<and> p \<noteq> []")
    case False
    have "trace s' = trace st @ [Print TotalElapsedTime] \<and>
       (case rt of Inl e \<Rightarrow> r = Inl e | Inr q \<Rightarrow> r = Inr () \<and> (q = None \<or> q = Some []))"
    proof (cases rt)
      case (Inl e)
      with assms t show ?thesis by (auto simp: upload_branch_def)
    next
      case (Inr q)
      with False have "q = None \<or> q = Some []" by (cases q) auto
      with Inr assms t show ?thesis by (auto simp: upload_branch_def Let_def)
    qed
    with tr aborted[of tr rt] show thesis by simp
  next
    case True
    then obtain p where p: "rt = Inr (Some p)" "p \<noteq> []" by auto
    obtain rv sv where g: "get_server_file_size dbx p (print TotalElapsedTime st) = (rv, sv)"
      by (cases "get_server_file_size dbx p (print TotalElapsedTime st)")
    from get_server_file_size_effect[OF g] obtain out where
      out: "trace sv = trace st @ [Print TotalElapsedTime, Attempt (FilesGetMetadata p) out]"
        "case rv of Inr n \<Rightarrow> reported_size out = Some n
          | Inl e \<Rightarrow> reported_size out = None \<and> (\<forall>x. e \<noteq> ApiError x)"
      by auto
    show thesis
    proof (cases rv)
      case (Inl e)
      with assms t p g have "r = Inl e" "s' = sv" by (simp_all add: upload_branch_def Let_def)
      with out Inl tr p checked[of tr p out] show thesis by simp
    next
      case (Inr n)
      show thesis
      proof (cases "n = fs")
        case False
        with Inr assms t p g have "r = Inl PlainException" "s' = sv"
          by (simp_all add: upload_branch_def Let_def)
        with out Inr False tr p checked[of tr p out] show thesis by simp
      next
        case True
        with Inr assms t p g have ds: "delete_step d sv = Some (r, s')"
          by (simp add: upload_branch_def Let_def)
        show thesis
        proof (cases d)
          case False
          with ds have "r = Inr ()" "s' = sv" by (simp_all add: delete_step_def)
          with out Inr True False tr p checked[of tr p out] show thesis by simp
        next
          case d: True
          with ds have "r = Inr ()" "s' = emit Remove (print DeletingFile sv)"
            by (simp_all add: delete_step_def)
          with out Inr True d tr p deleted[of tr p out] show thesis by simp
        qed
      qed
    qed
  qed
qed

lemma upload_extraction_raises:
  "upload d dbx fn sp (Inl e) f fs w = Some (Inl e, \<lparr>world = w, tell = 0, trace = []\<rparr>)"
  by (simp add: upload_def get_svr_path_from_metadata_def)

lemma upload_unfold:
  "upload d dbx fn sp (Inr ts) f fs w =
     (let dest = sp @ ''/'' @ fn;
          s1 = \<lparr>world = w, tell = 0,
                 trace = (case ts of None \<Rightarrow> [Print FailedToGetMetadata] | Some t \<Rightarrow> [])\<rparr>
      in case get_server_file_size dbx dest s1 of
           (Inl e, s2) \<Rightarrow> Some (Inl e, s2)
         | (Inr n, s2) \<Rightarrow>
             if n = fs then skip_branch d dest s2
             else
               (case ts of
                  None \<Rightarrow> upload_branch d dbx dest f fs s2
                | Some t \<Rightarrow>
                    (case get_server_file_size dbx (photos_path t fn) s2 of
                       (Inl e, s3) \<Rightarrow> Some (Inl e, s3)
                     | (Inr m, s3) \<Rightarrow>
                         if m = fs then skip_branch d dest s3
                         else upload_branch d dbx dest f fs s3)))"
  by (cases ts)
    (auto simp: upload_def get_svr_path_from_metadata_def Let_def print_def emit_def
      split: prod.splits sum.splits)

lemma skip_branch_eq:
  "skip_branch d dest s =
     Some (Inr (), s\<lparr>trace := trace s @ Print (AlreadyExists dest) #
                         (if d then [Print DeletingFile, Remove] else [])\<rparr>)"
  by (simp add: skip_branch_def delete_step_def print_def emit_def)

lemma upload_cases:
  assumes "upload d dbx fn sp (Inr ts) f fs w = Some (r, s')"
  obtains
    (raised) e where "list_all dedup_event (trace s')" "r = Inl e" "\<forall>x. e \<noteq> ApiError x"
      "\<not> size_match dbx fn sp ts fs w"
      "server_file_size dbx (sp @ ''/'' @ fn) w = Inl e \<or>
       (\<exists>t n. ts = Some t \<and> server_file_size dbx (sp @ ''/'' @ fn) w = Inr n \<and>
          server_file_size dbx (photos_path t fn) (world_after dbx (sp @ ''/'' @ fn) w) = Inl e)"
  | (skipped) "skip_trace d (sp @ ''/'' @ fn) fs (trace s')" "r = Inr ()"
      "size_match dbx fn sp ts fs w"
  | (branch) s1 where "upload_branch d dbx (sp @ ''/'' @ fn) f fs s1 = Some (r, s')"
      "list_all dedup_event (trace s1)" "\<not> size_match dbx fn sp ts fs w"
proof -
  define dest where "dest = sp @ ''/'' @ fn"
  define s1 :: "'a state" where "s1 = \<lparr>world = w, tell = 0,
                 trace = (case ts of None \<Rightarrow> [Print FailedToGetMetadata] | Some t \<Rightarrow> [])\<rparr>"
  have d1: "list_all dedup_event (trace s1)" and w1: "world s1 = w"
    by (simp_all add: s1_def split: option.splits)
  obtain r1 s2 where g1: "get_server_file_size dbx dest s1 = (r1, s2)"
    by (cases "get_server_file_size dbx dest s1")
  from get_server_file_size_effect[OF g1] w1 obtain out1 where
    o1: "trace s2 = trace s1 @ [Attempt (FilesGetMetadata dest) out1]"
      "world s2 = world_after dbx dest w" "r1 = server_file_size dbx dest w"
      "case r1 of Inr n \<Rightarrow> reported_size out1 = Some n
        | Inl e \<Rightarrow> reported_size out1 = None \<and> (\<forall>x. e \<noteq> ApiError x)"
    by auto
  from d1 o1(1) have d2: "list_all dedup_event (trace s2)" by simp
  note u = assms[unfolded upload_unfold Let_def, folded dest_def s1_def, unfolded g1]
  show thesis
  proof (cases r1)
    case (Inl e)
    with u have "r = Inl e" "s' = s2" by simp_all
    moreover from Inl o1(3) have "\<not> size_match dbx fn sp ts fs w"
      by (auto simp: size_match_def dest_def)
    moreover from Inl o1(3) have "server_file_size dbx (sp @ ''/'' @ fn) w = Inl e"
      by (simp add: dest_def)
    ultimately show thesis using raised[of e] d2 o1(4) Inl by simp
  next
    case (Inr n)
    show thesis
    proof (cases "n = fs")
      case True
      with Inr u have "r = Inr ()"
        "trace s' = trace s1 @ Attempt (FilesGetMetadata dest) out1 # Print (AlreadyExists dest) #
                         (if d then [Print DeletingFile, Remove] else [])"
        by (auto simp: skip_branch_eq o1(1))
      moreover from True Inr o1(3) have "size_match dbx fn sp ts fs w"
        by (auto simp: size_match_def dest_def)
      moreover from Inr True o1(4) have "reported_size out1 = Some fs" by simp
      ultimately show thesis using skipped d1 unfolding skip_trace_def dest_def by blast
    next
      case False
      show thesis
      proof (cases ts)
        case None
        with Inr False u have "upload_branch d dbx dest f fs s2 = Some (r, s')" by simp
        moreover from None Inr False o1(3) have "\<not> size_match dbx fn sp ts fs w"
          by (auto simp: size_match_def dest_def)
        ultimately show thesis using branch[of s2] d2 unfolding dest_def by simp
      next
        case (Some t)
        obtain r2 s3 where g2: "get_server_file_size dbx (photos_path t fn) s2 = (r2, s3)"
          by (cases "get_server_file_size dbx (photos_path t fn) s2")
        from get_server_file_size_effect[OF g2] o1(2) obtain out2 where
          o2: "trace s3 = trace s2 @ [Attempt (FilesGetMetadata (photos_path t fn)) out2]"
            "r2 = server_file_size dbx (photos_path t fn) (world_after dbx dest w)"
            "case r2 of Inr n \<Rightarrow> reported_size out2 = Some n
              | Inl e \<Rightarrow> reported_size out2 = None \<and> (\<forall>x. e \<noteq> ApiError x)"
          by auto
        from d2 o2(1) have d3: "list_all dedup_event (trace s3)" by simp
        from Some Inr False u g2 have u2:
          "(case r2 of Inl e \<Rightarrow> Some (Inl e, s3)
             | Inr m \<Rightarrow> if m = fs then skip_branch d dest s3
                        else upload_branch d dbx dest f fs s3) = Some (r, s')"
          by (simp split: sum.splits)
        show thesis
        proof (cases r2)
          case e: (Inl e)
          with u2 have "r = Inl e" "s' = s3" by simp_all
          moreover from e Some Inr False o1(3) o2(2) have "\<not> size_match dbx fn sp ts fs w"
            by (auto simp: size_match_def dest_def)
          moreover from e Some Inr o1(3) o2(2) have
            "\<exists>t n. ts = Some t \<and> server_file_size dbx (sp @ ''/'' @ fn) w = Inr n \<and>
               server_file_size dbx (photos_path t fn) (world_after dbx (sp @ ''/'' @ fn) w) = Inl e"
            by (simp add: dest_def)
          ultimately show thesis using raised[of e] d3 o2(3) e by simp
        next
          case m: (Inr m)
          show thesis
          proof (cases "m = fs")
            case True
            with m u2 have "r = Inr ()"
              "trace s' = trace s2 @ Attempt (FilesGetMetadata (photos_path t fn)) out2 #
                  Print (AlreadyExists dest) # (if d then [Print DeletingFile, Remove] else [])"
              by (auto simp: skip_branch_eq o2(1))
            moreover from True m Some Inr o1(3) o2(2) have "size_match dbx fn sp ts fs w"
              by (auto simp: size_match_def dest_def)
            moreover from m True o2(3) have "reported_size out2 = Some fs" by simp
            ultimately show thesis using skipped d2 unfolding skip_trace_def dest_def by blast
          next
            case f2: False
            with m u2 have "upload_branch d dbx dest f fs s3 = Some (r, s')" by simp
            moreover from f2 m Some Inr False o1(3) o2(2) have "\<not> size_match dbx fn sp ts fs w"
              by (auto simp: size_match_def dest_def)
            ultimately show thesis using branch[of s3] d3 unfolding dest_def by simp
          qed
        qed
      qed
    qed
  qed
qed

section \<open>The upload task: the shape of its traces\<close>

lemma declared_present_append [simp]:
  "declared_present (xs @ ys) \<longleftrightarrow> declared_present xs \<or> declared_present ys"
  by (simp add: declared_present_def)

lemma dedup_event_iff:
  "dedup_event e \<longleftrightarrow> (\<exists>p out. e = Attempt (FilesGetMetadata p) out) \<or> e = Print FailedToGetMetadata"
  by (cases e rule: dedup_event.cases) simp_all

lemma dedup_event_facts:
  assumes "dedup_event e"
  shows "\<not> is_upload_attempt e" "\<not> is_already_exists e" "e \<noteq> Remove" "\<not> is_api_rejection e"
    "e \<noteq> ReadError"
  using assms by (auto simp: dedup_event_iff is_api_rejection_iff)

lemma transfer_event_facts:
  assumes "transfer_event e"
  shows "\<not> is_already_exists e" "e \<noteq> Remove"
  using assms by (cases e rule: transfer_event.cases; simp)+

lemma dedup_trace:
  assumes "list_all dedup_event tr"
  shows "\<not> upload_issued tr" "\<not> declared_present tr" "Remove \<notin> set tr" "\<not> api_rejected tr"
    "ReadError \<notin> set tr"
  using assms dedup_event_facts
  by (auto simp: list_all_iff upload_issued_def declared_present_def api_rejected_def list_ex_iff)

lemma transferred_trace:
  assumes "transferred r tr"
  shows "\<not> declared_present tr" "Remove \<notin> set tr"
  using assms transfer_event_facts
  by (auto simp: transferred_def list_all_iff declared_present_def list_ex_iff)

lemma skip_trace_facts:
  assumes "skip_trace d dest fs tr"
  shows "declared_present tr" "\<not> upload_issued tr" "\<not> api_rejected tr" "ReadError \<notin> set tr"
    "d \<Longrightarrow> last tr = Remove" "\<not> d \<Longrightarrow> Remove \<notin> set tr"
proof -
  from assms obtain pre p out where
    tr: "tr = pre @ Attempt (FilesGetMetadata p) out # Print (AlreadyExists dest) #
                 (if d then [Print DeletingFile, Remove] else [])"
    and pre: "list_all dedup_event pre"
    by (auto simp: skip_trace_def)
  note dd = dedup_trace[OF pre]
  from tr show "declared_present tr" by (simp add: declared_present_def)
  from tr dd(1) show "\<not> upload_issued tr" by (cases d) (simp_all add: upload_issued_def)
  from tr dd(4) show "\<not> api_rejected tr"
    by (cases d) (simp_all add: api_rejected_def is_api_rejection_iff)
  from tr dd(5) show "ReadError \<notin> set tr" by (cases d) simp_all
  from tr show "d \<Longrightarrow> last tr = Remove" by simp
  from tr dd(3) show "\<not> d \<Longrightarrow> Remove \<notin> set tr" by simp
qed

lemma server_file_size_rejected:
  "files_get_metadata dbx p w = (Inl (ApiError x), w') \<Longrightarrow> server_file_size dbx p w = Inr 0"
  by (simp add: server_file_size_def get_server_file_size_def get_metadata_def attempt_def)

lemma upload_returns_on_match:
  assumes "size_match dbx fn sp ts fs w"
  shows "\<exists>r s'. upload d dbx fn sp (Inr ts) f fs w = Some (r, s')"
proof -
  define dest where "dest = sp @ ''/'' @ fn"
  define s1 :: "'a state" where "s1 = \<lparr>world = w, tell = 0,
                 trace = (case ts of None \<Rightarrow> [Print FailedToGetMetadata] | Some t \<Rightarrow> [])\<rparr>"
  have w1: "world s1 = w" by (simp add: s1_def)
  obtain r1 s2 where g1: "get_server_file_size dbx dest s1 = (r1, s2)"
    by (cases "get_server_file_size dbx dest s1")
  from get_server_file_size_effect[OF g1] w1 have
    o1: "world s2 = world_after dbx dest w" "r1 = server_file_size dbx dest w" by auto
  have u: "upload d dbx fn sp (Inr ts) f fs w =
      (case r1 of Inl e \<Rightarrow> Some (Inl e, s2)
        | Inr n \<Rightarrow> if n = fs then skip_branch d dest s2
             else (case ts of
                  None \<Rightarrow> upload_branch d dbx dest f fs s2
                | Some t \<Rightarrow>
                    (case get_server_file_size dbx (photos_path t fn) s2 of
                       (Inl e, s3) \<Rightarrow> Some (Inl e, s3)
                     | (Inr m, s3) \<Rightarrow>
                         if m = fs then skip_branch d dest s3
                         else upload_branch d dbx dest f fs s3)))"
    unfolding upload_unfold Let_def dest_def[symmetric] s1_def[symmetric] g1
    by (simp split: sum.splits)
  from assms consider "r1 = Inr fs"
    | t n where "ts = Some t" "r1 = Inr n" "n \<noteq> fs"
        "server_file_size dbx (photos_path t fn) (world_after dbx dest w) = Inr fs"
    unfolding size_match_def dest_def[symmetric] o1(2)[symmetric] by blast
  then show ?thesis
  proof cases
    case 1
    then show ?thesis unfolding u by (simp add: skip_branch_eq)
  next
    case 2
    obtain r2 s3 where g2: "get_server_file_size dbx (photos_path t fn) s2 = (r2, s3)"
      by (cases "get_server_file_size dbx (photos_path t fn) s2")
    from get_server_file_size_effect[OF g2] have
      "r2 = server_file_size dbx (photos_path t fn) (world s2)" by blast
    with o1(1) 2(4) have "r2 = Inr fs" by simp
    with 2 g2 show ?thesis unfolding u by (simp add: skip_branch_eq)
  qed
qed

lemma upload_skipped_iff: "skipped (upload d dbx fn sp (Inr ts) f fs w) \<longleftrightarrow> size_match dbx fn sp ts fs w"
proof
  assume m: "size_match dbx fn sp ts fs w"
  from upload_returns_on_match[OF m] obtain r s' where
    u: "upload d dbx fn sp (Inr ts) f fs w = Some (r, s')" by blast
  from u show "skipped (upload d dbx fn sp (Inr ts) f fs w)"
  proof (cases rule: upload_cases)
    case (raised e)
    with m show ?thesis by simp
  next
    case skipped
    with u skip_trace_facts(1,2)[OF skipped(1)] show ?thesis by (simp add: skipped_def)
  next
    case (branch s1)
    with m show ?thesis by simp
  qed
next
  assume s: "skipped (upload d dbx fn sp (Inr ts) f fs w)"
  then obtain r s' where u: "upload d dbx fn sp (Inr ts) f fs w = Some (r, s')"
    and dp: "declared_present (trace s')"
    by (auto simp: skipped_def split: option.splits)
  from u show "size_match dbx fn sp ts fs w"
  proof (cases rule: upload_cases)
    case (raised e)
    from raised(1) have "\<not> declared_present (trace s')" by (rule dedup_trace(2))
    with dp show ?thesis by simp
  next
    case skipped
    then show ?thesis by simp
  next
    case (branch s1)
    note pre = dedup_trace(2)[OF branch(2)]
    from branch(1) have "\<not> declared_present (trace s')"
    proof (cases rule: upload_branch_cases)
      case (aborted tr rt)
      with pre transferred_trace(1)[OF aborted(2)] show ?thesis
        by (simp add: declared_present_def)
    next
      case (checked tr p out)
      with pre transferred_trace(1)[OF checked(2)] show ?thesis
        by (simp add: declared_present_def)
    next
      case (deleted tr p out)
      with pre transferred_trace(1)[OF deleted(2)] show ?thesis
        by (simp add: declared_present_def)
    qed
    with dp show ?thesis by simp
  qed
qed

lemma upload_no_remove:
  assumes "upload d dbx fn sp (Inr ts) f fs w = Some (r, s')" "Remove \<in> set (trace s')"
  obtains (skip) pre p out where
      "trace s' = pre @ Attempt (FilesGetMetadata p) out #
         [Print (AlreadyExists (sp @ ''/'' @ fn)), Print DeletingFile, Remove]"
      "list_all dedup_event pre" "reported_size out = Some fs" "r = Inr ()" "d"
  | (verified) pre tr p out where
      "trace s' = (pre @ tr @ [Print TotalElapsedTime]) @ Attempt (FilesGetMetadata p) out #
         [Print DeletingFile, Remove]"
      "list_all dedup_event pre" "transferred (Inr (Some p)) tr"
      "reported_size out = Some fs" "r = Inr ()" "d"
  using assms(1)
proof (cases rule: upload_cases)
  case (raised e)
  with assms(2) dedup_trace(3) show ?thesis by blast
next
  case skipped
  show ?thesis
  proof (cases d)
    case False
    with skipped(1) assms(2) skip_trace_facts(6) show ?thesis by blast
  next
    case True
    with skipped skip[of _ _ _] show ?thesis by (auto simp: skip_trace_def)
  qed
next
  case (branch s1)
  note pre = dedup_trace(3)[OF branch(2)]
  from branch(1) show ?thesis
  proof (cases rule: upload_branch_cases)
    case (aborted tr rt)
    with pre transferred_trace(2)[OF aborted(2)] assms(2) show ?thesis by simp
  next
    case (checked tr p out)
    with pre transferred_trace(2)[OF checked(2)] assms(2) show ?thesis by simp
  next
    case (deleted tr p out)
    with branch(2) verified[of "trace s1" tr p out] show ?thesis by simp
  qed
qed

lemma gm_not_rejection: "\<not> is_api_rejection (Attempt (FilesGetMetadata p) out)"
  by (simp add: is_api_rejection_iff)

lemma upload_api_rejected:
  assumes "upload d dbx fn sp (Inr ts) f fs w = Some (r, s')" "api_rejected (trace s')"
  shows "r = Inr () \<and> (\<exists>x. Print (NotLoadedApiError x) \<in> set (trace s')) \<and>
         Remove \<notin> set (trace s') \<and> last (trace s') = Print TotalElapsedTime"
  using assms(1)
proof (cases rule: upload_cases)
  case (raised e)
  with assms(2) dedup_trace(4) show ?thesis by blast
next
  case skipped
  with assms(2) skip_trace_facts(3) show ?thesis by blast
next
  case (branch s1)
  note pre = dedup_trace(3,4)[OF branch(2)]
  from branch(1) show ?thesis
  proof (cases rule: upload_branch_cases)
    case (aborted tr rt)
    from aborted(1) assms(2) pre(2) have "api_rejected tr" by (simp add: api_rejected_def)
    with aborted(2) have "rt = Inr None" "\<exists>x. Print (NotLoadedApiError x) \<in> set tr"
      by (auto simp: transferred_def)
    with aborted(1,3) pre(1) transferred_trace(2)[OF aborted(2)] show ?thesis by auto
  next
    case (checked tr p out)
    from checked(1) assms(2) pre(2) have "api_rejected tr"
      by (simp add: api_rejected_def gm_not_rejection)
    with checked(2) have False by (auto simp: transferred_def)
    then show ?thesis ..
  next
    case (deleted tr p out)
    from deleted(1) assms(2) pre(2) have "api_rejected tr"
      by (simp add: api_rejected_def gm_not_rejection)
    with deleted(2) have False by (auto simp: transferred_def)
    then show ?thesis ..
  qed
qed

lemma upload_read_error:
  assumes "upload d dbx fn sp (Inr ts) f fs w = Some (r, s')" "ReadError \<in> set (trace s')"
  shows "r = Inl OSError \<and> Print FileReadFailed \<in> set (trace s') \<and> Remove \<notin> set (trace s')"
  using assms(1)
proof (cases rule: upload_cases)
  case (raised e)
  with assms(2) dedup_trace(5) show ?thesis by blast
next
  case skipped
  with assms(2) skip_trace_facts(4) show ?thesis by blast
next
  case (branch s1)
  note pre = dedup_trace(3,5)[OF branch(2)]
  from branch(1) show ?thesis
  proof (cases rule: upload_branch_cases)
    case (aborted tr rt)
    from aborted(1) assms(2) pre(2) have "ReadError \<in> set tr" by simp
    with aborted(2) have "rt = Inl OSError" "Print FileReadFailed \<in> set tr"
      by (auto simp: transferred_def)
    with aborted(1,3) pre(1) transferred_trace(2)[OF aborted(2)] show ?thesis by auto
  next
    case (checked tr p out)
    from checked(1) assms(2) pre(2) have "ReadError \<in> set tr" by simp
    with checked(2) have False by (auto simp: transferred_def)
    then show ?thesis ..
  next
    case (deleted tr p out)
    from deleted(1) assms(2) pre(2) have "ReadError \<in> set tr" by simp
    with deleted(2) have False by (auto simp: transferred_def)
    then show ?thesis ..
  qed
qed

lemma upload_no_api_error:
  assumes "upload d dbx fn sp (Inr ts) f fs w = Some (r, s')"
  shows "r \<noteq> Inl (ApiError x)"
  using assms(1)
proof (cases rule: upload_cases)
  case (raised e)
  then show ?thesis by simp
next
  case skipped
  then show ?thesis by simp
next
  case (branch s1)
  from branch(1) show ?thesis
  proof (cases rule: upload_branch_cases)
    case (aborted tr rt)
    then show ?thesis by (cases rt) (auto simp: transferred_def)
  next
    case (checked tr p out)
    then show ?thesis by (cases "reported_size out") (auto split: if_splits)
  next
    case (deleted tr p out)
    then show ?thesis by simp
  qed
qed

lemma upload_proceeds:
  assumes "upload d dbx fn sp (Inr ts) f fs w = Some (r, s')" "\<not> size_match dbx fn sp ts fs w"
    "server_file_size dbx (sp @ ''/'' @ fn) w = Inr n"
    "\<And>t. ts = Some t \<Longrightarrow> \<exists>m.
       server_file_size dbx (photos_path t fn) (world_after dbx (sp @ ''/'' @ fn) w) = Inr m"
  shows "\<not> declared_present (trace s') \<and> (ReadError \<in> set (trace s') \<or> upload_issued (trace s'))"
  using assms(1)
proof (cases rule: upload_cases)
  case (raised e)
  with assms(3,4) show ?thesis by auto
next
  case skipped
  with assms(2) show ?thesis by simp
next
  case (branch s1)
  note pre = dedup_trace(2)[OF branch(2)]
  have "\<exists>tr rest. trace s' = trace s1 @ tr @ rest \<and> \<not> declared_present tr \<and>
          \<not> declared_present rest \<and> (ReadError \<in> set tr \<or> upload_issued tr)"
    using branch(1)
  proof (cases rule: upload_branch_cases)
    case (aborted tr rt)
    from aborted(2) have "ReadError \<in> set tr \<or> upload_issued tr" by (simp add: transferred_def)
    with aborted(1) transferred_trace(1)[OF aborted(2)] show ?thesis
      by (intro exI[of _ tr] exI[of _ "[Print TotalElapsedTime]"])
        (simp add: declared_present_def)
  next
    case (checked tr p out)
    from checked(2) have "ReadError \<in> set tr \<or> upload_issued tr" by (simp add: transferred_def)
    with checked(1) transferred_trace(1)[OF checked(2)] show ?thesis
      by (intro exI[of _ tr] exI[of _ "[Print TotalElapsedTime, Attempt (FilesGetMetadata p) out]"])
        (simp add: declared_present_def)
  next
    case (deleted tr p out)
    from deleted(2) have "ReadError \<in> set tr \<or> upload_issued tr" by (simp add: transferred_def)
    with deleted(1) transferred_trace(1)[OF deleted(2)] show ?thesis
      by (intro exI[of _ tr] exI[of _ "[Print TotalElapsedTime, Attempt (FilesGetMetadata p) out,
            Print DeletingFile, Remove]"])
        (simp add: declared_present_def)
  qed
  with pre show ?thesis by auto
qed

lemma after_upload_mem:
  assumes "tr' = tr @ e # rest" "upload_issued tr"
  shows "e \<in> set (dropWhile (\<lambda>e. \<not> is_upload_attempt e) tr')"
proof -
  from assms(2) obtain u where "u \<in> set tr" "\<not> \<not> is_upload_attempt u"
    by (auto simp: upload_issued_def list_ex_iff)
  then have "dropWhile (\<lambda>e. \<not> is_upload_attempt e) (tr @ e # rest) =
               dropWhile (\<lambda>e. \<not> is_upload_attempt e) tr @ e # rest"
    by (rule dropWhile_append1)
  with assms(1) show ?thesis by simp
qed

lemma after_upload_dedup:
  assumes "list_all dedup_event pre"
  shows "dropWhile (\<lambda>e. \<not> is_upload_attempt e) (pre @ xs) = dropWhile (\<lambda>e. \<not> is_upload_attempt e) xs"
  using assms dedup_event_facts(1) by (intro dropWhile_append2) (auto simp: list_all_iff)

lemma transferred_no_lookup:
  "transferred r tr \<Longrightarrow> Attempt (FilesGetMetadata p) out \<notin> set tr"
  by (auto simp: transferred_def list_all_iff)

lemma upload_post_upload_lookup:
  assumes "upload d dbx fn sp (Inr ts) f fs w = Some (r, s')"
    "trace s' = tr @ Attempt (FilesGetMetadata p) out # rest" "upload_issued tr"
  shows "case reported_size out of
           None \<Rightarrow> (\<exists>e. r = Inl e \<and> (\<forall>x. e \<noteq> ApiError x)) \<and> Remove \<notin> set (trace s')
         | Some n \<Rightarrow>
             if n = fs then r = Inr () \<and> (d \<longleftrightarrow> Remove \<in> set (trace s'))
             else r = Inl PlainException \<and> Remove \<notin> set (trace s')"
  using assms(1)
proof (cases rule: upload_cases)
  case (raised e)
  from raised(1) assms(2) have "list_all dedup_event tr" by simp
  with assms(3) dedup_trace(1) show ?thesis by blast
next
  case skipped
  from assms(2,3) have "upload_issued (trace s')" by simp
  with skip_trace_facts(2)[OF skipped(1)] show ?thesis by simp
next
  case (branch s1)
  note pre = dedup_trace(3)[OF branch(2)]
  let ?e = "Attempt (FilesGetMetadata p) out"
  from after_upload_mem[OF assms(2,3)]
  have mem: "?e \<in> set (dropWhile (\<lambda>e. \<not> is_upload_attempt e) (trace s'))" .
  have sub: "\<And>tr0 suffix. trace s' = trace s1 @ tr0 @ suffix \<Longrightarrow> ?e \<notin> set tr0 \<Longrightarrow> ?e \<in> set suffix"
  proof -
    fix tr0 suffix
    assume t: "trace s' = trace s1 @ tr0 @ suffix" and n: "?e \<notin> set tr0"
    from mem t after_upload_dedup[OF branch(2), of "tr0 @ suffix"]
    have "?e \<in> set (dropWhile (\<lambda>e. \<not> is_upload_attempt e) (tr0 @ suffix))" by simp
    then have "?e \<in> set (tr0 @ suffix)" by (rule set_dropWhileD)
    with n show "?e \<in> set suffix" by simp
  qed
  from branch(1) show ?thesis
  proof (cases rule: upload_branch_cases)
    case (aborted tr0 rt)
    from sub[OF aborted(1) transferred_no_lookup[OF aborted(2)]] have False by simp
    then show ?thesis ..
  next
    case (checked tr0 q o1)
    from sub[OF checked(1) transferred_no_lookup[OF checked(2)]] have "out = o1" by simp
    moreover from checked(1) pre transferred_trace(2)[OF checked(2)]
    have "Remove \<notin> set (trace s')" by simp
    ultimately show ?thesis using checked(3)
      by (cases "reported_size o1") (auto split: if_splits)
  next
    case (deleted tr0 q o1)
    from sub[OF deleted(1) transferred_no_lookup[OF deleted(2)]] have "out = o1" by simp
    with deleted show ?thesis by simp
  qed
qed

section \<open>Evaluation on concrete inputs\<close>

lemmas run_defs = upload_def get_svr_path_from_metadata_def get_server_file_size_def get_metadata_def
  attempt_def skip_branch_def upload_branch_def delete_step_def transfer_def chunk_upload_def
  chunk_upload_loop.simps auto_retry_def auto_retry_loop.simps read_def upload_call_def
  session_start_def session_append_def session_finish_def print_def emit_def Let_def
  MAX_UPLOAD_CHUNK_SIZE_def MAX_RETRY_COUNT_ON_NETWORK_ERROR_def network_error_def
  memory_dbx_def a_file_def free_path_def fixed_dbx_def empty_dbx_def full_dbx_def
  forbidden_dbx_def

lemmas look_defs = server_file_size_def world_after_def get_server_file_size_def get_metadata_def
  attempt_def emit_def memory_dbx_def a_file_def fixed_dbx_def empty_dbx_def full_dbx_def
  forbidden_dbx_def

section \<open>The chunked upload: its requests and its termination\<close>

lemma completed_append [simp]: "completed (xs @ ys) = completed xs @ completed ys"
  by (induction xs rule: completed.induct) simp_all

lemma retried_completed:
  "retried req r tr \<Longrightarrow> completed tr = (case r of Inl e \<Rightarrow> [] | Inr v \<Rightarrow> [req])"
  by (simp add: retried_def)

lemma chunk_upload_loop_steps:
  assumes "chunk_upload_loop dbx f fs c ci up s = Some y"
  shows "content_size f = fs \<and> tell s \<le> fs \<and> (tell s < fs \<longrightarrow> offset c = tell s) \<longrightarrow>
     (\<exists>tr. trace (snd y) = trace s @ tr \<and>
        (if tell s < fs
         then session_steps fs (session_id c) ci (tell s) (completed tr) \<and>
              (\<forall>q. fst y = Inr q \<longrightarrow> completed tr \<noteq> [] \<and> is_finish (last (completed tr)))
         else completed tr = []))"
proof (rule chunk_upload_loop.raw_induct[where P = "\<lambda>dbx f fs c ci up s y.
     content_size f = fs \<and> tell s \<le> fs \<and> (tell s < fs \<longrightarrow> offset c = tell s) \<longrightarrow>
     (\<exists>tr. trace (snd y) = trace s @ tr \<and>
        (if tell s < fs
         then session_steps fs (session_id c) ci (tell s) (completed tr) \<and>
              (\<forall>q. fst y = Inr q \<longrightarrow> completed tr \<noteq> [] \<and> is_finish (last (completed tr)))
         else completed tr = []))", OF _ assms], goal_cases)
  case (1 loop dbx f fs c ci up s y)
  show ?case
  proof (rule impI)
    assume pre: "content_size f = fs \<and> tell s \<le> fs \<and> (tell s < fs \<longrightarrow> offset c = tell s)"
    show "\<exists>tr. trace (snd y) = trace s @ tr \<and>
        (if tell s < fs
         then session_steps fs (session_id c) ci (tell s) (completed tr) \<and>
              (\<forall>q. fst y = Inr q \<longrightarrow> completed tr \<noteq> [] \<and> is_finish (last (completed tr)))
         else completed tr = [])"
    proof (cases "tell s < fs")
      case False
      with 1(2) have "y = (Inr up, s)" by simp
      with False show ?thesis by simp
    next
      case True
      with pre have oc: "offset c = tell s" and cs: "content_size f = fs" by simp_all
      obtain rd s1 where rd: "read f (Some MAX_UPLOAD_CHUNK_SIZE) s = (rd, s1)"
        by (cases "read f (Some MAX_UPLOAD_CHUNK_SIZE) s")
      show ?thesis
      proof (cases rd)
        case (Inl e)
        with rd read_raises[of f _ s e s1] have "e = OSError" "s1 = emit ReadError s" by auto
        with 1(2) True rd Inl have "y = (Inl OSError, emit ReadError s)"
          by (simp split: if_splits)
        with True show ?thesis by simp
      next
        case (Inr d)
        with rd read_returns[of f "Some MAX_UPLOAD_CHUNK_SIZE" s d s1] cs
        have r1: "trace s1 = trace s" "first d = tell s" "tell s1 = tell s + count d"
          "count d = min MAX_UPLOAD_CHUNK_SIZE (fs - tell s)" by simp_all
        show ?thesis
        proof (cases "fs - tell s \<le> MAX_UPLOAD_CHUNK_SIZE")
          case fin: True
          with r1 True have cd: "count d = fs - tell s" "tell s1 = fs" by simp_all
          from 1(2) True rd Inr fin obtain r s2 where
            ar: "auto_retry (session_finish dbx d c ci) s1 = Some (r, s2)"
            by (auto split: option.splits)
          from session_finish_effect[OF ar] obtain tr where
            tr: "trace s2 = trace s1 @ tr" "retried (SessionFinish d c ci) r tr"
              "tell s2 = tell s1" by auto
          note ct = retried_completed[OF tr(2)]
          show ?thesis
          proof (cases r)
            case e: (Inl e)
            with 1(2) True rd Inr fin ar have "y = (Inl e, s2)" by simp
            with tr r1 e ct True show ?thesis by simp
          next
            case m: (Inr m)
            with 1(2) True rd Inr fin ar have
              lp: "loop dbx f fs c ci (path_lower m) (print (UploadedBytes (offset c)) s2) = Some y"
              by simp
            from 1(1)[OF lp] cs tr(3) cd obtain tr' where
              t': "trace (snd y) = (trace s2 @ [Print (UploadedBytes (offset c))]) @ tr'"
                "completed tr' = []"
              by auto
            have cc: "c = \<lparr>session_id = session_id c, offset = tell s\<rparr>" using oc by simp
            from t' tr r1 m ct have
              "trace (snd y) = trace s @ (tr @ [Print (UploadedBytes (offset c))] @ tr')"
              "completed (tr @ [Print (UploadedBytes (offset c))] @ tr') = [SessionFinish d c ci]"
              by simp_all
            moreover have "session_steps fs (session_id c) ci (tell s) [SessionFinish d c ci]"
              using cc r1(2) cd(1) fin True by simp
            ultimately show ?thesis using True by (metis is_finish.simps(1) last.simps list.distinct(1))
          qed
        next
          case app: False
          with r1 have cd: "count d = MAX_UPLOAD_CHUNK_SIZE" "tell s1 < fs" by simp_all
          from 1(2) True rd Inr app obtain r s2 where
            ar: "auto_retry (session_append dbx d (session_id c) (offset c)) s1 = Some (r, s2)"
            by (auto split: option.splits)
          from session_append_effect[OF ar] obtain tr where
            tr: "trace s2 = trace s1 @ tr"
              "retried (SessionAppend d (session_id c) (offset c)) r tr" "tell s2 = tell s1"
            by auto
          note ct = retried_completed[OF tr(2)]
          show ?thesis
          proof (cases r)
            case e: (Inl e)
            with 1(2) True rd Inr app ar have "y = (Inl e, s2)" by simp
            with tr r1 e ct True show ?thesis by simp
          next
            case u: (Inr u)
            with 1(2) True rd Inr app ar have
              lp: "loop dbx f fs (c\<lparr>offset := tell s2\<rparr>) ci up (print (UploadedBytes (tell s2)) s2)
                     = Some y"
              by simp
            from 1(1)[OF lp] cs tr(3) cd(2) obtain tr' where
              t': "trace (snd y) = (trace s2 @ [Print (UploadedBytes (tell s2))]) @ tr'"
                "session_steps fs (session_id c) ci (tell s2) (completed tr')"
                "\<forall>q. fst y = Inr q \<longrightarrow> completed tr' \<noteq> [] \<and> is_finish (last (completed tr'))"
              by auto
            from t' tr r1 u ct have
              a: "trace (snd y) = trace s @ (tr @ [Print (UploadedBytes (tell s2))] @ tr')"
              and b: "completed (tr @ [Print (UploadedBytes (tell s2))] @ tr') =
                 SessionAppend d (session_id c) (offset c) # completed tr'"
              by simp_all
            have "session_steps fs (session_id c) ci (tell s)
                    (SessionAppend d (session_id c) (offset c) # completed tr')"
              using oc r1(2,3) cd(1) app t'(2) tr(3) by simp
            then have "session_steps fs (session_id c) ci (tell s)
                    (completed (tr @ [Print (UploadedBytes (tell s2))] @ tr'))"
              by (simp only: b)
            moreover from b t'(3) have "\<forall>q. fst y = Inr q \<longrightarrow>
                completed (tr @ [Print (UploadedBytes (tell s2))] @ tr') \<noteq> [] \<and>
                is_finish (last (completed (tr @ [Print (UploadedBytes (tell s2))] @ tr')))"
              by (simp only: b) simp
            ultimately show ?thesis using a True
              by (intro exI[of _ "tr @ [Print (UploadedBytes (tell s2))] @ tr'"])
                (simp only: if_True simp_thms)
          qed
        qed
      qed
    qed
  qed
qed

lemma data_eq: "d = Bytes (first d) (count d)"
  by (cases d) simp

lemma session_steps_20MiB:
  assumes "session_steps 20971520 sid ci 8388608 rs" "rs \<noteq> []" "is_finish (last rs)"
  shows "rs = [SessionAppend (Bytes 8388608 8388608) sid 8388608,
               SessionFinish (Bytes 16777216 4194304) \<lparr>session_id = sid, offset = 16777216\<rparr> ci]"
proof (cases rs)
  case Nil
  with assms(2) show ?thesis by simp
next
  case (Cons r1 rs1)
  show ?thesis
  proof (cases r1)
    case (SessionAppend d sid' off)
    with Cons assms(1) have a: "sid' = sid" "off = 8388608" "first d = 8388608" "count d = 8388608"
      and st: "session_steps 20971520 sid ci 16777216 rs1"
      by (auto simp: MAX_UPLOAD_CHUNK_SIZE_def)
    from a data_eq[of d] have d: "d = Bytes 8388608 8388608" by simp
    show ?thesis
    proof (cases rs1)
      case Nil
      with Cons SessionAppend assms(3) show ?thesis by simp
    next
      case c2: (Cons r2 rs2)
      show ?thesis
      proof (cases r2)
        case f: (SessionFinish d2 c2' ci2)
        with c2 st have b: "c2' = \<lparr>session_id = sid, offset = 16777216\<rparr>" "ci2 = ci"
          "first d2 = 16777216" "count d2 = 4194304" "rs2 = []"
          by (auto simp: MAX_UPLOAD_CHUNK_SIZE_def)
        from b data_eq[of d2] have "d2 = Bytes 16777216 4194304" by simp
        with Cons SessionAppend c2 f a d b show ?thesis by simp
      qed (use c2 st in \<open>simp_all add: MAX_UPLOAD_CHUNK_SIZE_def\<close>)
    qed
  qed (use Cons assms(1) in \<open>simp_all add: MAX_UPLOAD_CHUNK_SIZE_def\<close>)
qed

lemma session_steps_contiguous:
  "session_steps fs sid ci cur rs \<Longrightarrow>
     contiguous (appends rs) \<and> (appends rs \<noteq> [] \<longrightarrow> fst (hd (appends rs)) = cur)"
proof (induction fs sid ci cur rs rule: session_steps.induct)
  case (2 fs sid ci cur d sid' off rs)
  then have ih: "contiguous (appends rs)" "appends rs \<noteq> [] \<longrightarrow> fst (hd (appends rs)) = off + count d"
    and o: "off = cur" and c: "0 < count d"
    by (auto simp: MAX_UPLOAD_CHUNK_SIZE_def)
  show ?case
  proof (cases "appends rs")
    case Nil
    with o show ?thesis by simp
  next
    case (Cons x xs)
    with ih o c show ?thesis by (cases x) auto
  qed
qed simp_all

lemma chunked_session_contiguous:
  "chunked_session fs sid ci rs \<Longrightarrow> contiguous (appends rs)"
  using session_steps_contiguous
  by (auto simp: chunked_session_def split: list.splits request.splits)

lemma chunk_upload_loop_total:
  "content_size f = fs \<Longrightarrow> \<exists>y. chunk_upload_loop dbx f fs c ci up s = Some y"
proof (induction "fs - tell s" arbitrary: c up s rule: less_induct)
  case less
  show ?case
  proof (cases "tell s < fs")
    case False
    then show ?thesis by (subst chunk_upload_loop.simps) simp
  next
    case True
    obtain rd s1 where rd: "read f (Some MAX_UPLOAD_CHUNK_SIZE) s = (rd, s1)"
      by (cases "read f (Some MAX_UPLOAD_CHUNK_SIZE) s")
    show ?thesis
    proof (cases rd)
      case (Inl e)
      with rd True show ?thesis by (subst chunk_upload_loop.simps) simp
    next
      case (Inr d)
      with rd read_returns[of f "Some MAX_UPLOAD_CHUNK_SIZE" s d s1] less.prems True
      have adv: "tell s < tell s1" by (simp add: MAX_UPLOAD_CHUNK_SIZE_def)
      show ?thesis
      proof (cases "fs - tell s \<le> MAX_UPLOAD_CHUNK_SIZE")
        case fin: True
        obtain r s2 where ar: "auto_retry (session_finish dbx d c ci) s1 = Some (r, s2)"
          using auto_retry_total by blast
        from session_finish_effect[OF ar] adv have lt: "fs - tell s2 < fs - tell s"
          using True by simp
        show ?thesis
        proof (cases r)
          case e: (Inl e)
          with rd Inr True fin ar show ?thesis by (subst chunk_upload_loop.simps) simp
        next
          case m: (Inr m)
          from lt have "fs - tell (print (UploadedBytes (offset c)) s2) < fs - tell s" by simp
          from less.hyps[OF this less.prems, of c "path_lower m"] rd Inr True fin ar m
          show ?thesis by (subst chunk_upload_loop.simps) simp
        qed
      next
        case app: False
        obtain r s2 where
          ar: "auto_retry (session_append dbx d (session_id c) (offset c)) s1 = Some (r, s2)"
          using auto_retry_total by blast
        from session_append_effect[OF ar] adv have lt: "fs - tell s2 < fs - tell s"
          using True by simp
        show ?thesis
        proof (cases r)
          case e: (Inl e)
          with rd Inr True app ar show ?thesis by (subst chunk_upload_loop.simps) simp
        next
          case u: (Inr u)
          from lt have "fs - tell (print (UploadedBytes (tell s2)) s2) < fs - tell s" by simp
          from less.hyps[OF this less.prems, of "c\<lparr>offset := tell s2\<rparr>" up] rd Inr True app ar u
          show ?thesis by (subst chunk_upload_loop.simps) simp
        qed
      qed
    qed
  qed
qed

lemma chunk_upload_total:
  assumes "content_size f = fs"
  shows "\<exists>y. chunk_upload dbx p f fs s = Some y"
proof -
  obtain rd s1 where rd: "read f (Some MAX_UPLOAD_CHUNK_SIZE) s = (rd, s1)"
    by (cases "read f (Some MAX_UPLOAD_CHUNK_SIZE) s")
  show ?thesis
  proof (cases rd)
    case (Inl e)
    with rd show ?thesis by (simp add: chunk_upload_def)
  next
    case (Inr d)
    obtain r s2 where ar: "auto_retry (session_start dbx d) s1 = Some (r, s2)"
      using auto_retry_total by blast
    show ?thesis
    proof (cases r)
      case e: (Inl e)
      with rd Inr ar show ?thesis by (simp add: chunk_upload_def)
    next
      case sid: (Inr sid)
      from chunk_upload_loop_total[OF assms] rd Inr ar sid show ?thesis
        by (simp add: chunk_upload_def)
    qed
  qed
qed

lemma read_raises_bad: "read f n s = (Inl e, s1) \<Longrightarrow> bad_offset f \<noteq> None"
  by (auto simp: read_def Let_def split: if_splits option.splits)

lemma read_short:
  assumes "read f n s = (Inr d, s1)" "content_size f < fs" "tell s < fs"
  shows "tell s1 < fs"
  using read_returns[OF assms(1)] assms(2,3) by (cases n) auto

lemma auto_retry_accepted:
  assumes "auto_retry (attempt req wrap func) s = Some (Inl e, s')"
  shows "\<not> (\<exists>v w'. func (world s) = (Inr v, w'))"
proof
  assume "\<exists>v w'. func (world s) = (Inr v, w')"
  then obtain v w' where "func (world s) = (Inr v, w')" by blast
  then have "attempt req wrap func s = (Inr v, emit (Attempt req (Inr (wrap v))) (s\<lparr>world := w'\<rparr>))"
    by (simp add: attempt_def)
  from auto_retry_returns[of "attempt req wrap func" s v, OF this] assms show False by simp
qed

lemma accepts_all_start:
  "accepts_all dbx \<Longrightarrow> \<exists>v w'. files_upload_session_start dbx d w = (Inr v, w')"
  by (simp add: accepts_all_def)

lemma accepts_all_append:
  "accepts_all dbx \<Longrightarrow> \<exists>v w'. files_upload_session_append dbx d sid off w = (Inr v, w')"
  by (simp add: accepts_all_def)

lemma accepts_all_finish:
  "accepts_all dbx \<Longrightarrow> \<exists>v w'. files_upload_session_finish dbx d c ci w = (Inr v, w')"
  by (simp add: accepts_all_def)

lemma chunk_upload_loop_short:
  assumes "chunk_upload_loop dbx f fs c ci up s = Some y"
  shows "content_size f < fs \<and> tell s < fs \<longrightarrow>
           (\<exists>e. fst y = Inl e) \<and> \<not> (bad_offset f = None \<and> accepts_all dbx)"
proof (rule chunk_upload_loop.raw_induct[where P = "\<lambda>dbx f fs c ci up s y.
     content_size f < fs \<and> tell s < fs \<longrightarrow>
           (\<exists>e. fst y = Inl e) \<and> \<not> (bad_offset f = None \<and> accepts_all dbx)", OF _ assms],
    goal_cases)
  case (1 loop dbx f fs c ci up s y)
  show ?case
  proof (rule impI)
    assume pre: "content_size f < fs \<and> tell s < fs"
    then have True: "tell s < fs" and cs: "content_size f < fs" by simp_all
    obtain rd s1 where rd: "read f (Some MAX_UPLOAD_CHUNK_SIZE) s = (rd, s1)"
      by (cases "read f (Some MAX_UPLOAD_CHUNK_SIZE) s")
    show "(\<exists>e. fst y = Inl e) \<and> \<not> (bad_offset f = None \<and> accepts_all dbx)"
    proof (cases rd)
      case (Inl e)
      with 1(2) True rd have "fst y = Inl e" by (auto split: if_splits)
      moreover from rd Inl have "bad_offset f \<noteq> None" using read_raises_bad by blast
      ultimately show ?thesis by simp
    next
      case (Inr d)
      with rd have sh: "tell s1 < fs" using read_short[OF _ cs True] by blast
      show ?thesis
      proof (cases "fs - tell s \<le> MAX_UPLOAD_CHUNK_SIZE")
        case fin: True
        with 1(2) True rd Inr obtain r s2 where
          ar: "auto_retry (session_finish dbx d c ci) s1 = Some (r, s2)"
          by (auto split: option.splits)
        from session_finish_effect[OF ar] sh have t2: "tell s2 < fs" by simp
        show ?thesis
        proof (cases r)
          case e: (Inl e)
          with 1(2) True rd Inr fin ar have "fst y = Inl e" by auto
          moreover from ar e auto_retry_accepted[of "SessionFinish d c ci" GotFile
              "files_upload_session_finish dbx d c ci" s1 e s2]
            accepts_all_finish[of dbx d c ci "world s1"]
          have "\<not> accepts_all dbx" unfolding session_finish_def by blast
          ultimately show ?thesis by simp
        next
          case m: (Inr m)
          with 1(2) True rd Inr fin ar have
            "loop dbx f fs c ci (path_lower m) (print (UploadedBytes (offset c)) s2) = Some y"
            by simp
          from 1(1)[OF this] cs t2 show ?thesis by simp
        qed
      next
        case app: False
        with 1(2) True rd Inr obtain r s2 where
          ar: "auto_retry (session_append dbx d (session_id c) (offset c)) s1 = Some (r, s2)"
          by (auto split: option.splits)
        from session_append_effect[OF ar] sh have t2: "tell s2 < fs" by simp
        show ?thesis
        proof (cases r)
          case e: (Inl e)
          with 1(2) True rd Inr app ar have "fst y = Inl e" by auto
          moreover from ar e auto_retry_accepted[of "SessionAppend d (session_id c) (offset c)"
              "\<lambda>_. Done" "files_upload_session_append dbx d (session_id c) (offset c)" s1 e s2]
            accepts_all_append[of dbx d "session_id c" "offset c" "world s1"]
          have "\<not> accepts_all dbx" unfolding session_append_def by blast
          ultimately show ?thesis by simp
        next
          case u: (Inr u)
          with 1(2) True rd Inr app ar have
            "loop dbx f fs (c\<lparr>offset := tell s2\<rparr>) ci up (print (UploadedBytes (tell s2)) s2) = Some y"
            by simp
          from 1(1)[OF this] cs t2 show ?thesis by simp
        qed
      qed
    qed
  qed
qed

lemma chunk_upload_short:
  assumes "chunk_upload dbx p f fs s = Some (r, s')" "content_size f < fs" "tell s < fs"
  shows "(\<exists>e. r = Inl e) \<and> \<not> (bad_offset f = None \<and> accepts_all dbx)"
proof -
  obtain rd s1 where rd: "read f (Some MAX_UPLOAD_CHUNK_SIZE) s = (rd, s1)"
    by (cases "read f (Some MAX_UPLOAD_CHUNK_SIZE) s")
  show ?thesis
  proof (cases rd)
    case (Inl e)
    with assms(1) rd have "r = Inl e" by (simp add: chunk_upload_def)
    moreover from rd Inl have "bad_offset f \<noteq> None" using read_raises_bad by blast
    ultimately show ?thesis by simp
  next
    case (Inr d)
    with rd have sh: "tell s1 < fs" using read_short[OF _ assms(2,3)] by blast
    from assms(1) rd Inr obtain r2 s2 where
      ar: "auto_retry (session_start dbx d) s1 = Some (r2, s2)"
      by (auto simp: chunk_upload_def split: option.splits)
    from session_start_effect[OF ar] sh have t2: "tell s2 < fs" by simp
    show ?thesis
    proof (cases r2)
      case e: (Inl e)
      with assms(1) rd Inr ar have "r = Inl e" by (simp add: chunk_upload_def)
      moreover from ar e auto_retry_accepted[of "SessionStart d" GotSession
          "files_upload_session_start dbx d" s1 e s2]
        accepts_all_start[of dbx d "world s1"]
      have "\<not> accepts_all dbx" unfolding session_start_def by blast
      ultimately show ?thesis by simp
    next
      case sid: (Inr sid)
      with assms(1) rd Inr ar have
        "chunk_upload_loop dbx f fs \<lparr>session_id = sid, offset = tell s2\<rparr>
           \<lparr>path = p, autorename = True, mode = Add\<rparr> [] s2 = Some (r, s')"
        by (simp add: chunk_upload_def)
      from chunk_upload_loop_short[OF this] assms(2) t2 show ?thesis by simp
    qed
  qed
qed

section \<open>The claims\<close>

text \<open>
  C2. The retry wrapper retries on \<^verbatim>\<open>ConnectionError\<close> and \<^verbatim>\<open>ProtocolError\<close> only, and
  the claim says that after the tenth consecutive network failure the network error
  itself reaches the caller. Against a remote side that raises \<^verbatim>\<open>ConnectionError\<close> on
  every call, \<^verbatim>\<open>_auto_retry\<close> attempts the request ten times, prints the error line, and
  what it raises is \<^verbatim>\<open>AttributeError\<close>, not the network error.
\<close>

theorem auto_retry_ceiling_raises_AttributeError:
  "\<exists>s'. auto_retry (session_start reset_dbx (Bytes 0 5)) \<lparr>world = (), tell = 5, trace = []\<rparr>
          = Some (Inl AttributeError, s') \<and>
        attempted (trace s') = replicate 10 (SessionStart (Bytes 0 5)) \<and>
        last (trace s') = Print ErrorFailedOperation"
  by (simp add: auto_retry_def auto_retry_loop.simps session_start_def attempt_def reset_dbx_def
      fixed_dbx_def network_error_def MAX_RETRY_COUNT_ON_NETWORK_ERROR_def print_def emit_def
      numeral_eq_Suc)

text \<open>
  C7, as stated: a move is issued only if the canonical path differs from the current
  path of the object. The object below is at \<^verbatim>\<open>/Photos/2020/05/01/img_01.jpg\<close>, which is
  its canonical path (its \<^verbatim>\<open>path_lower\<close> is that path in lower case), and
  \<^verbatim>\<open>_fix_file\<close> issues the move all the same.
\<close>

theorem fix_file_moves_object_at_canonical_path:
  "map lower_char (photos_path \<lparr>year = 2020, month = 5, day = 1\<rparr> ''img_01.jpg'')
     = ''/photos/2020/05/01/img_01.jpg'' \<and>
   fix_file empty_dbx
     (FileMetadata \<lparr>name = ''img_01.jpg'', path_lower = ''/photos/2020/05/01/img_01.jpg'',
        size_bytes = 5,
        media_info = Some (MediaMetadata (Some \<lparr>year = 2020, month = 5, day = 1\<rparr>))\<rparr>)
     \<lparr>world = (), tell = 0, trace = []\<rparr> =
   (Inr (), \<lparr>world = (), tell = 0, trace =
      [Print (MovingFromTo ''/photos/2020/05/01/img_01.jpg'' ''/Photos/2020/05/01/img_01.jpg''),
       Attempt (FilesMove ''/photos/2020/05/01/img_01.jpg'' ''/Photos/2020/05/01/img_01.jpg'')
         (Inr Done)]\<rparr>)"
proof -
  have p: "photos_path \<lparr>year = 2020, month = 5, day = 1\<rparr> ''img_01.jpg''
             = ''/Photos/2020/05/01/img_01.jpg''"
    by (simp add: photos_path_def pad2_def decimal.simps)
  have l: "map lower_char ''/Photos/2020/05/01/img_01.jpg'' = ''/photos/2020/05/01/img_01.jpg''"
    by code_simp
  have m: "map lower_char (photos_path \<lparr>year = 2020, month = 5, day = 1\<rparr> ''img_01.jpg'')
             = ''/photos/2020/05/01/img_01.jpg''"
    unfolding p by (rule l)
  have f: "fix_file empty_dbx
     (FileMetadata \<lparr>name = ''img_01.jpg'', path_lower = ''/photos/2020/05/01/img_01.jpg'',
        size_bytes = 5,
        media_info = Some (MediaMetadata (Some \<lparr>year = 2020, month = 5, day = 1\<rparr>))\<rparr>)
     \<lparr>world = (), tell = 0, trace = []\<rparr> =
   (Inr (), \<lparr>world = (), tell = 0, trace =
      [Print (MovingFromTo ''/photos/2020/05/01/img_01.jpg'' ''/Photos/2020/05/01/img_01.jpg''),
       Attempt (FilesMove ''/photos/2020/05/01/img_01.jpg'' ''/Photos/2020/05/01/img_01.jpg'')
         (Inr Done)]\<rparr>)"
    by (simp add: fix_file_def move_call_def attempt_def empty_dbx_def fixed_dbx_def print_def
        emit_def photos_path_def pad2_def decimal.simps Let_def)
  show ?thesis by (intro conjI m f)
qed

text \<open>
  C7, amended: in the relocation pass, the requests that \<^verbatim>\<open>_fix_file\<close> issues for a remote
  entry are exactly one move from its \<^verbatim>\<open>path_lower\<close> to its canonical date-based path when
  the entry carries a capture time, and none otherwise. The canonical path is not
  compared with the current path.
\<close>

theorem fix_file_moves_iff_capture_time:
  "attempted (trace (snd (fix_file dbx e s))) =
     attempted (trace s) @
       (case capture_time e of
          Some t \<Rightarrow>
            (case e of
               FileMetadata m \<Rightarrow> [FilesMove (path_lower m) (photos_path t (name m))]
             | _ \<Rightarrow> [])
        | None \<Rightarrow> [])"
  by (auto simp: fix_file_def capture_time_def move_call_def attempt_def Let_def
      split: entry.splits option.splits media_info.splits prod.splits sum.splits exn.splits)

text \<open>
  C3, as stated: a task is skipped if and only if the remote size at the direct path, or
  at the canonical path when the extraction of the capture time succeeds, equals the
  local size, and when the extraction fails only the direct path is checked. In the first
  run below the extraction raises \<^verbatim>\<open>ValueError\<close> (the date found in the file does not have
  the format that \<^verbatim>\<open>strptime\<close> expects) while the remote store holds an object of the local
  size at the direct path: \<^verbatim>\<open>upload\<close> raises before any lookup and the task is not
  skipped. In the second run the capture time is extracted and the remote side holds an
  object of the local size at the canonical path, but the lookup at the direct path, which
  comes first and is not repeated, raises \<^verbatim>\<open>ConnectionError\<close>: \<^verbatim>\<open>upload\<close> raises, the
  canonical path is never looked up and the task is not skipped.
\<close>

theorem upload_not_skipped_when_extraction_or_lookup_raises:
  "server_file_size memory_dbx ''/Photos/a.jpg'' \<lparr>objects = [(''/Photos/a.jpg'', 5)], session = 0\<rparr>
     = Inr 5 \<and>
   upload False memory_dbx ''a.jpg'' ''/Photos'' (Inl ValueError)
       \<lparr>content_size = 5, bad_offset = None\<rparr> 5 \<lparr>objects = [(''/Photos/a.jpg'', 5)], session = 0\<rparr> =
     Some (Inl ValueError,
       \<lparr>world = \<lparr>objects = [(''/Photos/a.jpg'', 5)], session = 0\<rparr>, tell = 0, trace = []\<rparr>) \<and>
   \<not> skipped (upload False memory_dbx ''a.jpg'' ''/Photos'' (Inl ValueError)
       \<lparr>content_size = 5, bad_offset = None\<rparr> 5 \<lparr>objects = [(''/Photos/a.jpg'', 5)], session = 0\<rparr>) \<and>
   server_file_size (unreachable_at ''/Photos/a.jpg'') ''/Photos/2020/05/01/a.jpg'' () = Inr 5 \<and>
   upload False (unreachable_at ''/Photos/a.jpg'') ''a.jpg'' ''/Photos''
       (Inr (Some \<lparr>year = 2020, month = 5, day = 1\<rparr>)) \<lparr>content_size = 5, bad_offset = None\<rparr> 5 () =
     Some (Inl ConnectionError,
       \<lparr>world = (), tell = 0,
        trace = [Attempt (FilesGetMetadata ''/Photos/a.jpg'') (Inl ConnectionError)]\<rparr>) \<and>
   \<not> skipped (upload False (unreachable_at ''/Photos/a.jpg'') ''a.jpg'' ''/Photos''
       (Inr (Some \<lparr>year = 2020, month = 5, day = 1\<rparr>)) \<lparr>content_size = 5, bad_offset = None\<rparr> 5 ())"
proof -
  have a: "server_file_size memory_dbx ''/Photos/a.jpg''
      \<lparr>objects = [(''/Photos/a.jpg'', 5)], session = 0\<rparr> = Inr 5"
    by (simp add: look_defs)
  have b: "upload False memory_dbx ''a.jpg'' ''/Photos'' (Inl ValueError)
       \<lparr>content_size = 5, bad_offset = None\<rparr> 5 \<lparr>objects = [(''/Photos/a.jpg'', 5)], session = 0\<rparr> =
     Some (Inl ValueError,
       \<lparr>world = \<lparr>objects = [(''/Photos/a.jpg'', 5)], session = 0\<rparr>, tell = 0, trace = []\<rparr>)"
    by (simp add: run_defs)
  have c: "server_file_size (unreachable_at ''/Photos/a.jpg'') ''/Photos/2020/05/01/a.jpg'' () = Inr 5"
    by (simp add: look_defs unreachable_at_def)
  have d: "upload False (unreachable_at ''/Photos/a.jpg'') ''a.jpg'' ''/Photos''
       (Inr (Some \<lparr>year = 2020, month = 5, day = 1\<rparr>)) \<lparr>content_size = 5, bad_offset = None\<rparr> 5 () =
     Some (Inl ConnectionError,
       \<lparr>world = (), tell = 0,
        trace = [Attempt (FilesGetMetadata ''/Photos/a.jpg'') (Inl ConnectionError)]\<rparr>)"
    by (simp add: run_defs unreachable_at_def)
  show ?thesis
    unfolding b d using a c by (simp add: skipped_def declared_present_def)
qed

text \<open>
  C3, amended: a task is skipped (the file is declared already present and no upload
  request is attempted) if and only if the extraction of the capture time returns, with
  or without a time, and either the lookup at the direct destination path reports the
  local size, or a capture time was extracted, the lookup at the direct path returned a
  size, and the lookup at the canonical path, made next, reports the local size. When
  the extraction returns no capture time only the direct path decides. When the
  extraction raises, \<^verbatim>\<open>upload\<close> raises the same exception before any lookup. A lookup
  rejected with an \<^verbatim>\<open>ApiError\<close>, such as object not found, counts as size 0.
\<close>

theorem upload_skipped_iff_extraction_returns_and_size_match:
  "(skipped (upload d dbx fn sp x f fs w) \<longleftrightarrow>
      (\<exists>ts. x = Inr ts \<and>
         (server_file_size dbx (sp @ ''/'' @ fn) w = Inr fs \<or>
          (\<exists>t n. ts = Some t \<and>
             server_file_size dbx (sp @ ''/'' @ fn) w = Inr n \<and>
             server_file_size dbx (photos_path t fn) (world_after dbx (sp @ ''/'' @ fn) w)
               = Inr fs))))
   \<and> (x = Inr None \<longrightarrow>
        (skipped (upload d dbx fn sp x f fs w) \<longleftrightarrow>
           server_file_size dbx (sp @ ''/'' @ fn) w = Inr fs))
   \<and> (\<forall>e. x = Inl e \<longrightarrow>
        upload d dbx fn sp x f fs w = Some (Inl e, \<lparr>world = w, tell = 0, trace = []\<rparr>))
   \<and> (\<forall>p y w'. files_get_metadata dbx p w = (Inl (ApiError y), w') \<longrightarrow>
          server_file_size dbx p w = Inr 0)"
proof (cases x)
  case (Inl e)
  then show ?thesis
    using server_file_size_rejected[of dbx _ w]
    by (auto simp: upload_extraction_raises skipped_def declared_present_def)
next
  case (Inr ts)
  then show ?thesis
    using upload_skipped_iff[of d dbx fn sp ts f fs w] server_file_size_rejected[of dbx _ w]
    by (auto simp: size_match_def)
qed

text \<open>The theorem at a store that holds the file at the direct path, at a store that holds
  it at the canonical path only (without and with a capture time), at an extraction that
  raises, and at an empty store.\<close>

theorem upload_skipped_iff_extraction_returns_and_size_match_witness:
  "skipped (upload False memory_dbx ''a.jpg'' ''/Photos'' (Inr None)
      \<lparr>content_size = 5, bad_offset = None\<rparr> 5 \<lparr>objects = [(''/Photos/a.jpg'', 5)], session = 0\<rparr>) \<and>
   \<not> skipped (upload False memory_dbx ''a.jpg'' ''/Photos'' (Inr None)
      \<lparr>content_size = 5, bad_offset = None\<rparr> 5
      \<lparr>objects = [(''/Photos/2020/05/01/a.jpg'', 5)], session = 0\<rparr>) \<and>
   skipped (upload False memory_dbx ''a.jpg'' ''/Photos''
      (Inr (Some \<lparr>year = 2020, month = 5, day = 1\<rparr>)) \<lparr>content_size = 5, bad_offset = None\<rparr>
      5 \<lparr>objects = [(''/Photos/2020/05/01/a.jpg'', 5)], session = 0\<rparr>) \<and>
   \<not> skipped (upload False memory_dbx ''a.jpg'' ''/Photos'' (Inl ValueError)
      \<lparr>content_size = 5, bad_offset = None\<rparr> 5 \<lparr>objects = [(''/Photos/a.jpg'', 5)], session = 0\<rparr>) \<and>
   upload False memory_dbx ''a.jpg'' ''/Photos'' (Inl ValueError)
      \<lparr>content_size = 5, bad_offset = None\<rparr> 5 \<lparr>objects = [(''/Photos/a.jpg'', 5)], session = 0\<rparr> =
     Some (Inl ValueError,
       \<lparr>world = \<lparr>objects = [(''/Photos/a.jpg'', 5)], session = 0\<rparr>, tell = 0, trace = []\<rparr>) \<and>
   server_file_size memory_dbx ''/Photos/a.jpg'' \<lparr>objects = [], session = 0\<rparr> = Inr 0"
proof -
  have p: "photos_path \<lparr>year = 2020, month = 5, day = 1\<rparr> ''a.jpg'' = ''/Photos/2020/05/01/a.jpg''"
    by (simp add: photos_path_def pad2_def decimal.simps)
  have a: "server_file_size memory_dbx ''/Photos/a.jpg''
             \<lparr>objects = [(''/Photos/a.jpg'', 5)], session = 0\<rparr> = Inr 5"
    by (simp add: look_defs)
  have b: "server_file_size memory_dbx ''/Photos/a.jpg''
             \<lparr>objects = [(''/Photos/2020/05/01/a.jpg'', 5)], session = 0\<rparr> = Inr 0"
    by (simp add: look_defs)
  have c: "server_file_size memory_dbx ''/Photos/2020/05/01/a.jpg''
             (world_after memory_dbx ''/Photos/a.jpg''
                \<lparr>objects = [(''/Photos/2020/05/01/a.jpg'', 5)], session = 0\<rparr>) = Inr 5"
    by (simp add: look_defs)
  have d: "files_get_metadata memory_dbx ''/Photos/a.jpg'' \<lparr>objects = [], session = 0\<rparr>
             = (Inl (ApiError ''not_found''), \<lparr>objects = [], session = 0\<rparr>)"
    by (simp add: memory_dbx_def)
  note t = upload_skipped_iff_extraction_returns_and_size_match
  have 1: "skipped (upload False memory_dbx ''a.jpg'' ''/Photos'' (Inr None)
      \<lparr>content_size = 5, bad_offset = None\<rparr> 5 \<lparr>objects = [(''/Photos/a.jpg'', 5)], session = 0\<rparr>)"
    using t[where d = False and dbx = memory_dbx and fn = "''a.jpg''" and sp = "''/Photos''"
        and x = "Inr None" and f = "\<lparr>content_size = 5, bad_offset = None\<rparr>" and fs = 5
        and w = "\<lparr>objects = [(''/Photos/a.jpg'', 5)], session = 0\<rparr>"] a
    by simp
  have 2: "\<not> skipped (upload False memory_dbx ''a.jpg'' ''/Photos'' (Inr None)
      \<lparr>content_size = 5, bad_offset = None\<rparr> 5
      \<lparr>objects = [(''/Photos/2020/05/01/a.jpg'', 5)], session = 0\<rparr>)"
    using t[where d = False and dbx = memory_dbx and fn = "''a.jpg''" and sp = "''/Photos''"
        and x = "Inr None" and f = "\<lparr>content_size = 5, bad_offset = None\<rparr>" and fs = 5
        and w = "\<lparr>objects = [(''/Photos/2020/05/01/a.jpg'', 5)], session = 0\<rparr>"] b
    by simp
  have 3: "skipped (upload False memory_dbx ''a.jpg'' ''/Photos''
      (Inr (Some \<lparr>year = 2020, month = 5, day = 1\<rparr>)) \<lparr>content_size = 5, bad_offset = None\<rparr>
      5 \<lparr>objects = [(''/Photos/2020/05/01/a.jpg'', 5)], session = 0\<rparr>)"
    using t[where d = False and dbx = memory_dbx and fn = "''a.jpg''" and sp = "''/Photos''"
        and x = "Inr (Some \<lparr>year = 2020, month = 5, day = 1\<rparr>)"
        and f = "\<lparr>content_size = 5, bad_offset = None\<rparr>" and fs = 5
        and w = "\<lparr>objects = [(''/Photos/2020/05/01/a.jpg'', 5)], session = 0\<rparr>"] b c p
    by simp
  have 4: "\<not> skipped (upload False memory_dbx ''a.jpg'' ''/Photos'' (Inl ValueError)
      \<lparr>content_size = 5, bad_offset = None\<rparr> 5 \<lparr>objects = [(''/Photos/a.jpg'', 5)], session = 0\<rparr>) \<and>
   upload False memory_dbx ''a.jpg'' ''/Photos'' (Inl ValueError)
      \<lparr>content_size = 5, bad_offset = None\<rparr> 5 \<lparr>objects = [(''/Photos/a.jpg'', 5)], session = 0\<rparr> =
     Some (Inl ValueError,
       \<lparr>world = \<lparr>objects = [(''/Photos/a.jpg'', 5)], session = 0\<rparr>, tell = 0, trace = []\<rparr>)"
    using t[where d = False and dbx = memory_dbx and fn = "''a.jpg''" and sp = "''/Photos''"
        and x = "Inl ValueError" and f = "\<lparr>content_size = 5, bad_offset = None\<rparr>" and fs = 5
        and w = "\<lparr>objects = [(''/Photos/a.jpg'', 5)], session = 0\<rparr>"]
    by (simp add: skipped_def declared_present_def)
  have 5: "server_file_size memory_dbx ''/Photos/a.jpg'' \<lparr>objects = [], session = 0\<rparr> = Inr 0"
    using t[where dbx = memory_dbx and w = "\<lparr>objects = [], session = 0\<rparr>"] d by blast
  from 1 2 3 4 5 show ?thesis by blast
qed

text \<open>
  C4, as stated: with the delete flag set, the local file is never removed before the
  post-upload size verification has passed. In the run below the remote store already
  holds an object of the local size at the direct path: the task is skipped, nothing is
  uploaded, no verification after an upload takes place, and the local file is removed.
\<close>

theorem upload_skip_deletes_without_verification:
  "upload True memory_dbx ''a.jpg'' ''/Photos'' (Inr None) \<lparr>content_size = 5, bad_offset = None\<rparr> 5
     \<lparr>objects = [(''/Photos/a.jpg'', 5)], session = 0\<rparr> =
   Some (Inr (),
     \<lparr>world = \<lparr>objects = [(''/Photos/a.jpg'', 5)], session = 0\<rparr>, tell = 0,
      trace =
        [Print FailedToGetMetadata,
         Attempt (FilesGetMetadata ''/Photos/a.jpg'')
           (Inr (GotEntry (FileMetadata (a_file ''/Photos/a.jpg'' 5)))),
         Print (AlreadyExists ''/Photos/a.jpg''),
         Print DeletingFile,
         Remove]\<rparr>)"
  by (simp add: run_defs)

text \<open>
  C4, amended: in every execution of \<^verbatim>\<open>upload\<close> with the delete flag set, whatever the
  extraction of the capture time yields, the removal of
  the local file is the last event and comes right after a metadata lookup that reported
  exactly the local size: the verification lookup that follows the upload requests when
  the file was uploaded, or the lookup of the skip decision (followed by the line that
  declares the file present) when nothing was uploaded. If a lookup that follows an upload
  request reports another size or raises, \<^verbatim>\<open>upload\<close> raises (the plain \<^verbatim>\<open>Exception\<close> when a
  size was reported) and the local file is not removed.
\<close>

theorem upload_deletes_only_after_size_match:
  assumes "upload True dbx fn sp x f fs w = Some (r, s')"
  shows "(Remove \<in> set (trace s') \<longrightarrow>
           (\<exists>tr p out rest.
              trace s' = tr @ Attempt (FilesGetMetadata p) out # rest \<and>
              reported_size out = Some fs \<and> Remove \<notin> set tr \<and>
              (rest = [Print DeletingFile, Remove] \<and> upload_issued tr \<or>
               rest = [Print (AlreadyExists (sp @ ''/'' @ fn)), Print DeletingFile, Remove] \<and>
               \<not> upload_issued tr)))
       \<and> (\<forall>tr p out rest.
             trace s' = tr @ Attempt (FilesGetMetadata p) out # rest \<and> upload_issued tr \<and>
             reported_size out \<noteq> Some fs \<longrightarrow>
             (\<exists>e. r = Inl e) \<and> (reported_size out \<noteq> None \<longrightarrow> r = Inl PlainException) \<and>
             Remove \<notin> set (trace s'))"
proof (cases x)
  case (Inl e)
  with assms have "trace s' = []" by (auto simp: upload_extraction_raises)
  then show ?thesis by simp
next
  case (Inr ts)
  with assms have run: "upload True dbx fn sp (Inr ts) f fs w = Some (r, s')" by simp
  show ?thesis
  proof (rule conjI)
    show "Remove \<in> set (trace s') \<longrightarrow>
             (\<exists>tr p out rest.
                trace s' = tr @ Attempt (FilesGetMetadata p) out # rest \<and>
                reported_size out = Some fs \<and> Remove \<notin> set tr \<and>
                (rest = [Print DeletingFile, Remove] \<and> upload_issued tr \<or>
                 rest = [Print (AlreadyExists (sp @ ''/'' @ fn)), Print DeletingFile, Remove] \<and>
                 \<not> upload_issued tr))"
    proof (rule impI)
      assume rm: "Remove \<in> set (trace s')"
      from run rm show "\<exists>tr p out rest.
                trace s' = tr @ Attempt (FilesGetMetadata p) out # rest \<and>
                reported_size out = Some fs \<and> Remove \<notin> set tr \<and>
                (rest = [Print DeletingFile, Remove] \<and> upload_issued tr \<or>
                 rest = [Print (AlreadyExists (sp @ ''/'' @ fn)), Print DeletingFile, Remove] \<and>
                 \<not> upload_issued tr)"
      proof (cases rule: upload_no_remove)
        case (skip pre p out)
        with dedup_trace(1,3)[OF skip(2)] show ?thesis by blast
      next
        case (verified pre tr p out)
        from verified(3) have "upload_issued tr" by (simp add: transferred_def)
        with verified(1,4) dedup_trace(3)[OF verified(2)] transferred_trace(2)[OF verified(3)]
        show ?thesis
          by (intro exI[of _ "pre @ tr @ [Print TotalElapsedTime]"] exI[of _ p] exI[of _ out]
              exI[of _ "[Print DeletingFile, Remove]"]) simp
      qed
    qed
    show "\<forall>tr p out rest.
               trace s' = tr @ Attempt (FilesGetMetadata p) out # rest \<and> upload_issued tr \<and>
               reported_size out \<noteq> Some fs \<longrightarrow>
               (\<exists>e. r = Inl e) \<and> (reported_size out \<noteq> None \<longrightarrow> r = Inl PlainException) \<and>
               Remove \<notin> set (trace s')"
    proof (intro allI, rule impI)
      fix tr p out rest
      assume a: "trace s' = tr @ Attempt (FilesGetMetadata p) out # rest \<and> upload_issued tr \<and>
               reported_size out \<noteq> Some fs"
      then have t: "trace s' = tr @ Attempt (FilesGetMetadata p) out # rest" and u: "upload_issued tr"
        and n: "reported_size out \<noteq> Some fs" by simp_all
      from upload_post_upload_lookup[OF run t u] n
      show "(\<exists>e. r = Inl e) \<and> (reported_size out \<noteq> None \<longrightarrow> r = Inl PlainException) \<and>
               Remove \<notin> set (trace s')"
        by (cases "reported_size out") (auto split: if_splits)
    qed
  qed
qed

text \<open>The theorem at an upload into the empty store in memory, where the verification
  passes and the file is removed, and at an upload to a store that rejects the lookups,
  where the verification fails.\<close>

theorem upload_deletes_only_after_size_match_witness:
  "(\<exists>r s'. upload True memory_dbx ''a.jpg'' ''/Photos'' (Inr None) \<lparr>content_size = 5, bad_offset = None\<rparr>
            5 \<lparr>objects = [], session = 0\<rparr> = Some (r, s') \<and>
          Remove \<in> set (trace s') \<and>
          (\<exists>tr p out rest.
              trace s' = tr @ Attempt (FilesGetMetadata p) out # rest \<and>
              reported_size out = Some 5 \<and> Remove \<notin> set tr \<and>
              (rest = [Print DeletingFile, Remove] \<and> upload_issued tr \<or>
               rest = [Print (AlreadyExists (''/Photos'' @ ''/'' @ ''a.jpg'')), Print DeletingFile,
                       Remove] \<and>
               \<not> upload_issued tr))) \<and>
   (\<exists>r s'. upload True forbidden_dbx ''a.jpg'' ''/Photos'' (Inr None)
            \<lparr>content_size = 5, bad_offset = None\<rparr> 5 () = Some (r, s') \<and>
          r = Inl PlainException \<and> Remove \<notin> set (trace s'))"
proof -
  have "\<exists>s'. upload True memory_dbx ''a.jpg'' ''/Photos'' (Inr None)
            \<lparr>content_size = 5, bad_offset = None\<rparr> 5 \<lparr>objects = [], session = 0\<rparr> = Some (Inr (), s')
          \<and> Remove \<in> set (trace s')"
    by (simp add: run_defs)
  then obtain s1 where
    e1: "upload True memory_dbx ''a.jpg'' ''/Photos'' (Inr None)
            \<lparr>content_size = 5, bad_offset = None\<rparr> 5 \<lparr>objects = [], session = 0\<rparr> = Some (Inr (), s1)"
    and rm: "Remove \<in> set (trace s1)" by blast
  define tr2 where "tr2 =
        [Print FailedToGetMetadata,
         Attempt (FilesGetMetadata ''/Photos/a.jpg'') (Inl (ApiError ''no_permission'')),
         Attempt (FilesUpload (Bytes 0 5) ''/Photos/a.jpg'')
           (Inr (GotFile (a_file ''/photos/a.jpg'' 5))),
         Print TotalElapsedTime]"
  have e2: "upload True forbidden_dbx ''a.jpg'' ''/Photos'' (Inr None)
            \<lparr>content_size = 5, bad_offset = None\<rparr> 5 () =
          Some (Inl PlainException, \<lparr>world = (), tell = 5, trace =
            tr2 @ Attempt (FilesGetMetadata ''/photos/a.jpg'') (Inl (ApiError ''no_permission'')) # []\<rparr>)"
    by (simp add: run_defs tr2_def)
  have u2: "upload_issued tr2" by (simp add: tr2_def upload_issued_def)
  note v = upload_deletes_only_after_size_match[OF e2, THEN conjunct2, rule_format,
      of tr2 "''/photos/a.jpg''" "Inl (ApiError ''no_permission'')" "[]"]
  have "Remove \<notin> set (trace \<lparr>world = (), tell = 5, trace =
            tr2 @ Attempt (FilesGetMetadata ''/photos/a.jpg'') (Inl (ApiError ''no_permission'')) # []\<rparr>)"
    using v u2 by simp
  with upload_deletes_only_after_size_match[OF e1] rm e1 e2 show ?thesis by blast
qed

text \<open>
  C5, as stated: every failure of a task other than a failed read of the local file, the
  mismatch of the size verification included, leaves \<^verbatim>\<open>upload\<close> without an exception. In
  the run below the remote store accepts the upload and then does not hold the object:
  the size verification reports 0 for a local size of 5, and \<^verbatim>\<open>upload\<close> raises
  \<^verbatim>\<open>Exception\<close>.
\<close>

theorem upload_size_mismatch_raises:
  "upload False empty_dbx ''a.jpg'' ''/Photos'' (Inr None) \<lparr>content_size = 5, bad_offset = None\<rparr> 5 () =
   Some (Inl PlainException,
     \<lparr>world = (), tell = 5,
      trace =
        [Print FailedToGetMetadata,
         Attempt (FilesGetMetadata ''/Photos/a.jpg'') (Inl (ApiError ''not_found'')),
         Attempt (FilesUpload (Bytes 0 5) ''/Photos/a.jpg'')
           (Inr (GotFile (a_file ''/photos/a.jpg'' 5))),
         Print TotalElapsedTime,
         Attempt (FilesGetMetadata ''/photos/a.jpg'') (Inl (ApiError ''not_found''))]\<rparr>)"
  by (simp add: run_defs)

text \<open>
  C5, amended: no \<^verbatim>\<open>ApiError\<close> ever leaves \<^verbatim>\<open>upload\<close> (the extraction of the capture
  time makes no remote call, so whatever it raises is not an \<^verbatim>\<open>ApiError\<close>), and when the
  remote store rejects an upload request with an \<^verbatim>\<open>ApiError\<close> the task returns normally
  and the local file is not removed. A size other than the local one reported by a lookup that follows an
  upload request makes \<^verbatim>\<open>upload\<close> raise the plain \<^verbatim>\<open>Exception\<close>, and a failed read of the
  local file makes it raise \<^verbatim>\<open>OSError\<close>.
\<close>

theorem upload_isolates_api_rejections:
  assumes "upload d dbx fn sp x f fs w = Some (r, s')" and "\<forall>y. x \<noteq> Inl (ApiError y)"
  shows "(\<forall>x. r \<noteq> Inl (ApiError x))
       \<and> (api_rejected (trace s') \<longrightarrow> r = Inr () \<and> Remove \<notin> set (trace s'))
       \<and> (\<forall>tr p out rest n.
             trace s' = tr @ Attempt (FilesGetMetadata p) out # rest \<and> upload_issued tr \<and>
             reported_size out = Some n \<and> n \<noteq> fs \<longrightarrow> r = Inl PlainException)
       \<and> (ReadError \<in> set (trace s') \<longrightarrow> r = Inl OSError)"
proof (cases x)
  case (Inl e)
  with assms have "r = Inl e" "trace s' = []" "\<forall>y. e \<noteq> ApiError y"
    by (auto simp: upload_extraction_raises)
  then show ?thesis by (simp add: api_rejected_def)
next
  case (Inr ts)
  with assms have run: "upload d dbx fn sp (Inr ts) f fs w = Some (r, s')" by simp
  show ?thesis
  proof (intro conjI)
    show "\<forall>x. r \<noteq> Inl (ApiError x)" using upload_no_api_error[OF run] by blast
    show "api_rejected (trace s') \<longrightarrow> r = Inr () \<and> Remove \<notin> set (trace s')"
      using upload_api_rejected[OF run] by blast
    show "\<forall>tr p out rest n.
               trace s' = tr @ Attempt (FilesGetMetadata p) out # rest \<and> upload_issued tr \<and>
               reported_size out = Some n \<and> n \<noteq> fs \<longrightarrow> r = Inl PlainException"
    proof (intro allI, rule impI)
      fix tr p out rest n
      assume a: "trace s' = tr @ Attempt (FilesGetMetadata p) out # rest \<and> upload_issued tr \<and>
               reported_size out = Some n \<and> n \<noteq> fs"
      then have t: "trace s' = tr @ Attempt (FilesGetMetadata p) out # rest" and u: "upload_issued tr"
        and n: "reported_size out = Some n" "n \<noteq> fs" by simp_all
      from upload_post_upload_lookup[OF run t u] n show "r = Inl PlainException" by simp
    qed
    show "ReadError \<in> set (trace s') \<longrightarrow> r = Inl OSError"
      using upload_read_error[OF run] by blast
  qed
qed

text \<open>The theorem at a remote store without space left, which rejects the upload.\<close>

theorem upload_isolates_api_rejections_witness:
  "\<exists>r s'. upload True full_dbx ''a.jpg'' ''/Photos'' (Inr None) \<lparr>content_size = 5, bad_offset = None\<rparr>
            5 () = Some (r, s') \<and>
          api_rejected (trace s') \<and> r = Inr () \<and> Remove \<notin> set (trace s')"
proof -
  have "\<exists>s'. upload True full_dbx ''a.jpg'' ''/Photos'' (Inr None)
            \<lparr>content_size = 5, bad_offset = None\<rparr> 5 () = Some (Inr (), s')
          \<and> api_rejected (trace s')"
    by (simp add: run_defs api_rejected_def)
  then obtain s' where
    e: "upload True full_dbx ''a.jpg'' ''/Photos'' (Inr None)
            \<lparr>content_size = 5, bad_offset = None\<rparr> 5 () = Some (Inr (), s')"
    and rj: "api_rejected (trace s')" by blast
  have n: "\<forall>y. (Inr None :: exn + datetime option) \<noteq> Inl (ApiError y)" by simp
  from upload_isolates_api_rejections[OF e n] rj e show ?thesis by blast
qed

text \<open>
  C6. When the remote store rejects an upload request of a task with an \<^verbatim>\<open>ApiError\<close>, the
  rejection is printed, \<^verbatim>\<open>upload\<close> returns normally, the local file is not removed and
  the task ends there (its last event is the line of \<^verbatim>\<open>stopwatch\<close>). When a read of the
  local file fails, the failure is printed and \<^verbatim>\<open>upload\<close> raises \<^verbatim>\<open>OSError\<close>, again
  without removing the file.
\<close>

theorem upload_rejection_skips_and_read_failure_propagates:
  assumes "upload d dbx fn sp x f fs w = Some (r, s')"
  shows "(api_rejected (trace s') \<longrightarrow>
            r = Inr () \<and> (\<exists>x. Print (NotLoadedApiError x) \<in> set (trace s')) \<and>
            Remove \<notin> set (trace s') \<and> last (trace s') = Print TotalElapsedTime)
       \<and> (ReadError \<in> set (trace s') \<longrightarrow>
            r = Inl OSError \<and> Print FileReadFailed \<in> set (trace s') \<and>
            Remove \<notin> set (trace s'))"
proof (cases x)
  case (Inl e)
  with assms have "trace s' = []" by (auto simp: upload_extraction_raises)
  then show ?thesis by (simp add: api_rejected_def)
next
  case (Inr ts)
  with assms have run: "upload d dbx fn sp (Inr ts) f fs w = Some (r, s')" by simp
  from upload_api_rejected[OF run] upload_read_error[OF run] show ?thesis by blast
qed

text \<open>The theorem at a remote store without space left, and at a local file whose fourth
  byte cannot be read.\<close>

theorem upload_rejection_skips_and_read_failure_propagates_witness:
  "(\<exists>r s'. upload True full_dbx ''a.jpg'' ''/Photos'' (Inr None) \<lparr>content_size = 5, bad_offset = None\<rparr>
            5 () = Some (r, s') \<and>
          api_rejected (trace s') \<and> r = Inr () \<and>
          (\<exists>x. Print (NotLoadedApiError x) \<in> set (trace s')) \<and> Remove \<notin> set (trace s')) \<and>
   (\<exists>r s'. upload True memory_dbx ''a.jpg'' ''/Photos'' (Inr None)
            \<lparr>content_size = 5, bad_offset = Some 3\<rparr> 5 \<lparr>objects = [], session = 0\<rparr> = Some (r, s') \<and>
          ReadError \<in> set (trace s') \<and> r = Inl OSError \<and>
          Print FileReadFailed \<in> set (trace s') \<and> Remove \<notin> set (trace s'))"
proof -
  have "\<exists>s'. upload True full_dbx ''a.jpg'' ''/Photos'' (Inr None)
            \<lparr>content_size = 5, bad_offset = None\<rparr> 5 () = Some (Inr (), s')
          \<and> api_rejected (trace s')"
    by (simp add: run_defs api_rejected_def)
  then obtain s1 where
    e1: "upload True full_dbx ''a.jpg'' ''/Photos'' (Inr None)
            \<lparr>content_size = 5, bad_offset = None\<rparr> 5 () = Some (Inr (), s1)"
    and rj: "api_rejected (trace s1)" by blast
  have "\<exists>r s'. upload True memory_dbx ''a.jpg'' ''/Photos'' (Inr None)
            \<lparr>content_size = 5, bad_offset = Some 3\<rparr> 5 \<lparr>objects = [], session = 0\<rparr> = Some (r, s')
          \<and> ReadError \<in> set (trace s')"
    by (simp add: run_defs)
  then obtain r2 s2 where
    e2: "upload True memory_dbx ''a.jpg'' ''/Photos'' (Inr None)
            \<lparr>content_size = 5, bad_offset = Some 3\<rparr> 5 \<lparr>objects = [], session = 0\<rparr> = Some (r2, s2)"
    and re: "ReadError \<in> set (trace s2)" by blast
  from upload_rejection_skips_and_read_failure_propagates[OF e1] rj e1
    upload_rejection_skips_and_read_failure_propagates[OF e2] re e2
  show ?thesis by blast
qed




text \<open>
  C9, as stated: any rejected metadata lookup makes the check for an existing copy treat
  the remote object as absent and go on to upload. In the run below the local file is
  empty and the remote store rejects the lookup for lack of permission: the size 0 that
  the rejection yields equals the local size, the file is declared already present,
  nothing is uploaded, and with the delete flag set the local file is removed.
\<close>

theorem upload_rejected_lookup_skips_empty_file:
  "upload True forbidden_dbx ''a.jpg'' ''/Photos'' (Inr None) \<lparr>content_size = 0, bad_offset = None\<rparr> 0 () =
   Some (Inr (),
     \<lparr>world = (), tell = 0,
      trace =
        [Print FailedToGetMetadata,
         Attempt (FilesGetMetadata ''/Photos/a.jpg'') (Inl (ApiError ''no_permission'')),
         Print (AlreadyExists ''/Photos/a.jpg''),
         Print DeletingFile,
         Remove]\<rparr>)"
  by (simp add: run_defs)

text \<open>
  C9, amended: \<^verbatim>\<open>_get_server_file_size\<close> returns 0 for every \<^verbatim>\<open>ApiError\<close>. The lookups of
  a task are made once the extraction of the capture time has returned; \<open>ts\<close> is what
  it returned. For a local file of non-zero size, when the lookups of the check for an existing copy (at the direct
  path, and at the canonical path if a capture time was extracted) are rejected, the file
  is not declared present and the task goes on to the transfer: it attempts an upload
  request, unless the first read of the local file fails. And when a lookup that follows
  an upload request is rejected, the verification fails: \<^verbatim>\<open>upload\<close> raises the plain
  \<^verbatim>\<open>Exception\<close> and the local file is not removed.
\<close>

theorem lookup_rejection_counts_as_size_zero:
  "(\<forall>x w'. files_get_metadata dbx p (world s) = (Inl (ApiError x), w') \<longrightarrow>
       fst (get_server_file_size dbx p s) = Inr 0)
   \<and> (fs \<noteq> 0 \<and>
       (\<exists>x w1. files_get_metadata dbx (sp @ ''/'' @ fn) w = (Inl (ApiError x), w1) \<and>
          (\<forall>t. ts = Some t \<longrightarrow>
             (\<exists>y w2. files_get_metadata dbx (photos_path t fn) w1 = (Inl (ApiError y), w2)))) \<and>
       upload d dbx fn sp (Inr ts) f fs w = Some (r, s')
       \<longrightarrow> \<not> declared_present (trace s') \<and>
           (ReadError \<in> set (trace s') \<or> upload_issued (trace s')))
   \<and> (fs \<noteq> 0 \<and> upload d dbx fn sp (Inr ts) f fs w = Some (r, s') \<and>
       (\<exists>tr q x rest.
          trace s' = tr @ Attempt (FilesGetMetadata q) (Inl (ApiError x)) # rest \<and>
          upload_issued tr)
       \<longrightarrow> r = Inl PlainException \<and> Remove \<notin> set (trace s'))"
proof (intro conjI)
  show "\<forall>x w'. files_get_metadata dbx p (world s) = (Inl (ApiError x), w') \<longrightarrow>
       fst (get_server_file_size dbx p s) = Inr 0"
    by (simp add: get_server_file_size_def get_metadata_def attempt_def)
  show "fs \<noteq> 0 \<and>
       (\<exists>x w1. files_get_metadata dbx (sp @ ''/'' @ fn) w = (Inl (ApiError x), w1) \<and>
          (\<forall>t. ts = Some t \<longrightarrow>
             (\<exists>y w2. files_get_metadata dbx (photos_path t fn) w1 = (Inl (ApiError y), w2)))) \<and>
       upload d dbx fn sp (Inr ts) f fs w = Some (r, s')
       \<longrightarrow> \<not> declared_present (trace s') \<and>
           (ReadError \<in> set (trace s') \<or> upload_issued (trace s'))"
  proof (rule impI)
    assume a: "fs \<noteq> 0 \<and>
       (\<exists>x w1. files_get_metadata dbx (sp @ ''/'' @ fn) w = (Inl (ApiError x), w1) \<and>
          (\<forall>t. ts = Some t \<longrightarrow>
             (\<exists>y w2. files_get_metadata dbx (photos_path t fn) w1 = (Inl (ApiError y), w2)))) \<and>
       upload d dbx fn sp (Inr ts) f fs w = Some (r, s')"
    then obtain x w1 where fs: "fs \<noteq> 0"
      and g1: "files_get_metadata dbx (sp @ ''/'' @ fn) w = (Inl (ApiError x), w1)"
      and g2: "\<And>t. ts = Some t \<Longrightarrow>
                 \<exists>y w2. files_get_metadata dbx (photos_path t fn) w1 = (Inl (ApiError y), w2)"
      and u: "upload d dbx fn sp (Inr ts) f fs w = Some (r, s')" by blast
    from g1 have z1: "server_file_size dbx (sp @ ''/'' @ fn) w = Inr 0"
      by (rule server_file_size_rejected)
    from g1 have wa: "world_after dbx (sp @ ''/'' @ fn) w = w1" by (simp add: world_after_def)
    have z2: "\<And>t. ts = Some t \<Longrightarrow>
        server_file_size dbx (photos_path t fn) (world_after dbx (sp @ ''/'' @ fn) w) = Inr 0"
      using g2 wa server_file_size_rejected by metis
    from fs z1 z2 have nm: "\<not> size_match dbx fn sp ts fs w" by (auto simp: size_match_def)
    from z2 have "\<And>t. ts = Some t \<Longrightarrow> \<exists>m.
        server_file_size dbx (photos_path t fn) (world_after dbx (sp @ ''/'' @ fn) w) = Inr m"
      by blast
    from upload_proceeds[OF u nm z1 this]
    show "\<not> declared_present (trace s') \<and> (ReadError \<in> set (trace s') \<or> upload_issued (trace s'))" .
  qed
  show "fs \<noteq> 0 \<and> upload d dbx fn sp (Inr ts) f fs w = Some (r, s') \<and>
       (\<exists>tr q x rest.
          trace s' = tr @ Attempt (FilesGetMetadata q) (Inl (ApiError x)) # rest \<and>
          upload_issued tr)
       \<longrightarrow> r = Inl PlainException \<and> Remove \<notin> set (trace s')"
  proof (rule impI)
    assume a: "fs \<noteq> 0 \<and> upload d dbx fn sp (Inr ts) f fs w = Some (r, s') \<and>
       (\<exists>tr q x rest.
          trace s' = tr @ Attempt (FilesGetMetadata q) (Inl (ApiError x)) # rest \<and>
          upload_issued tr)"
    then obtain tr q x rest where fs: "fs \<noteq> 0"
      and u: "upload d dbx fn sp (Inr ts) f fs w = Some (r, s')"
      and t: "trace s' = tr @ Attempt (FilesGetMetadata q) (Inl (ApiError x)) # rest"
      and ui: "upload_issued tr" by blast
    from upload_post_upload_lookup[OF u t ui] fs
    show "r = Inl PlainException \<and> Remove \<notin> set (trace s')" by simp
  qed
qed

text \<open>The theorem at a file of 5 bytes and a remote store that rejects every lookup for
  lack of permission and accepts the upload.\<close>

theorem lookup_rejection_counts_as_size_zero_witness:
  "fst (get_server_file_size forbidden_dbx ''/Photos/a.jpg'' \<lparr>world = (), tell = 0, trace = []\<rparr>)
     = Inr 0 \<and>
   (\<exists>r s'. upload True forbidden_dbx ''a.jpg'' ''/Photos'' (Inr None)
            \<lparr>content_size = 5, bad_offset = None\<rparr> 5 () = Some (r, s') \<and>
          \<not> declared_present (trace s') \<and> upload_issued (trace s') \<and>
          r = Inl PlainException \<and> Remove \<notin> set (trace s'))"
proof -
  define tr2 where "tr2 =
        [Print FailedToGetMetadata,
         Attempt (FilesGetMetadata ''/Photos/a.jpg'') (Inl (ApiError ''no_permission'')),
         Attempt (FilesUpload (Bytes 0 5) ''/Photos/a.jpg'')
           (Inr (GotFile (a_file ''/photos/a.jpg'' 5))),
         Print TotalElapsedTime]"
  define s2 :: "unit state" where "s2 = \<lparr>world = (), tell = 5, trace =
            tr2 @ Attempt (FilesGetMetadata ''/photos/a.jpg'') (Inl (ApiError ''no_permission'')) # []\<rparr>"
  have e: "upload True forbidden_dbx ''a.jpg'' ''/Photos'' (Inr None)
            \<lparr>content_size = 5, bad_offset = None\<rparr> 5 () = Some (Inl PlainException, s2)"
    by (simp add: run_defs tr2_def s2_def)
  have t2: "trace s2 = tr2 @ Attempt (FilesGetMetadata ''/photos/a.jpg'')
                               (Inl (ApiError ''no_permission'')) # []"
    by (simp add: s2_def)
  have u2: "upload_issued tr2" by (simp add: tr2_def upload_issued_def)
  have g: "\<And>q. files_get_metadata forbidden_dbx q () = (Inl (ApiError ''no_permission''), ())"
    by (simp add: forbidden_dbx_def fixed_dbx_def)
  note t = lookup_rejection_counts_as_size_zero[of forbidden_dbx "''/Photos/a.jpg''"
      "\<lparr>world = (), tell = 0, trace = []\<rparr>" 5 "''/Photos''" "''a.jpg''" "()" None True
      "\<lparr>content_size = 5, bad_offset = None\<rparr>" "Inl PlainException" s2]
  from t g have a: "fst (get_server_file_size forbidden_dbx ''/Photos/a.jpg''
      \<lparr>world = (), tell = 0, trace = []\<rparr>) = Inr 0" by simp
  from t g e have b: "\<not> declared_present (trace s2) \<and>
           (ReadError \<in> set (trace s2) \<or> upload_issued (trace s2))" by simp
  from t2 u2 have ex: "\<exists>tr q x rest.
          trace s2 = tr @ Attempt (FilesGetMetadata q) (Inl (ApiError x)) # rest \<and>
          upload_issued tr" by blast
  from t e ex have c: "Remove \<notin> set (trace s2)" by simp
  from t2 u2 have "upload_issued (trace s2)" by simp
  with a b c e show ?thesis by blast
qed

text \<open>
  C1. For a file of \<open>fs\<close> bytes, more than the chunk size of 8 MiB, read from its start,
  the requests that \<^verbatim>\<open>_chunk_upload\<close> completes are: the session start with the first chunk,
  then appends of whole chunks, each at the offset of the previous one plus the bytes
  appended there (so the offsets increase strictly), issued only while more than a chunk
  remains, then the finish with the rest of the file, issued only once at most a chunk
  remains. An upload that raises stops somewhere in this sequence, and one that returns
  has completed the finish. For 20 MiB (20971520 bytes) an upload that returns has
  completed exactly one start of 8 MiB (8388608 bytes), one append of 8 MiB at offset
  8 MiB, which brings the cursor to 16 MiB (16777216), and one finish of 4 MiB (4194304
  bytes) with the cursor at 16 MiB. Attempts that failed with a network error and were
  repeated by \<^verbatim>\<open>_auto_retry\<close> are not counted.
\<close>

theorem chunk_upload_session_protocol:
  assumes "MAX_UPLOAD_CHUNK_SIZE < fs" "content_size f = fs" "tell s = 0"
    "chunk_upload dbx p f fs s = Some (r, s')"
  shows "\<exists>tr sid.
           trace s' = trace s @ tr \<and>
           chunked_session fs sid \<lparr>path = p, autorename = True, mode = Add\<rparr> (completed tr) \<and>
           contiguous (appends (completed tr)) \<and>
           (\<forall>q. r = Inr q \<longrightarrow> completed tr \<noteq> [] \<and> is_finish (last (completed tr))) \<and>
           (fs = 20971520 \<and> (\<exists>q. r = Inr q) \<longrightarrow>
              completed tr =
                [SessionStart (Bytes 0 8388608),
                 SessionAppend (Bytes 8388608 8388608) sid 8388608,
                 SessionFinish (Bytes 16777216 4194304) \<lparr>session_id = sid, offset = 16777216\<rparr>
                   \<lparr>path = p, autorename = True, mode = Add\<rparr>])"
proof -
  let ?ci = "\<lparr>path = p, autorename = True, mode = Add\<rparr>"
  obtain rd s1 where rd: "read f (Some MAX_UPLOAD_CHUNK_SIZE) s = (rd, s1)"
    by (cases "read f (Some MAX_UPLOAD_CHUNK_SIZE) s")
  show ?thesis
  proof (cases rd)
    case (Inl e)
    with rd read_raises[of f _ s e s1] have "e = OSError" "s1 = emit ReadError s" by auto
    with assms(4) rd Inl have "r = Inl OSError" "s' = emit ReadError s"
      by (simp_all add: chunk_upload_def)
    then show ?thesis
      by (intro exI[of _ "[ReadError]"] exI[of _ "[]"]) (simp add: chunked_session_def)
  next
    case (Inr d)
    with rd read_returns[of f "Some MAX_UPLOAD_CHUNK_SIZE" s d s1] assms(1,2,3)
    have r1: "trace s1 = trace s" "first d = 0" "tell s1 = MAX_UPLOAD_CHUNK_SIZE"
      "count d = MAX_UPLOAD_CHUNK_SIZE" by simp_all
    from assms(4) rd Inr obtain r2 s2 where
      ar: "auto_retry (session_start dbx d) s1 = Some (r2, s2)"
      by (auto simp: chunk_upload_def split: option.splits)
    from session_start_effect[OF ar] obtain tr where
      tr: "trace s2 = trace s1 @ tr" "retried (SessionStart d) r2 tr" "tell s2 = tell s1" by auto
    note ct = retried_completed[OF tr(2)]
    show ?thesis
    proof (cases r2)
      case e: (Inl e)
      with assms(4) rd Inr ar have "r = Inl e" "s' = s2" by (simp_all add: chunk_upload_def)
      with tr r1 e ct show ?thesis
        by (intro exI[of _ tr] exI[of _ "[]"]) (simp add: chunked_session_def)
    next
      case sid: (Inr sid)
      with assms(4) rd Inr ar have
        lp: "chunk_upload_loop dbx f fs \<lparr>session_id = sid, offset = tell s2\<rparr> ?ci [] s2 = Some (r, s')"
        by (simp add: chunk_upload_def)
      from chunk_upload_loop_steps[OF lp] assms(1,2) tr(3) r1(3) obtain tr' where
        t': "trace s' = trace s2 @ tr'"
          "session_steps fs sid ?ci MAX_UPLOAD_CHUNK_SIZE (completed tr')"
          "\<forall>q. r = Inr q \<longrightarrow> completed tr' \<noteq> [] \<and> is_finish (last (completed tr'))"
        by auto
      from ct sid have c: "completed (tr @ tr') = SessionStart d # completed tr'" by simp
      have 1: "trace s' = trace s @ (tr @ tr')" using t'(1) tr(1) r1(1) by simp
      have 2: "chunked_session fs sid ?ci (completed (tr @ tr'))"
        unfolding c using r1(2,4) t'(2) by (simp add: chunked_session_def)
      have 3: "\<forall>q. r = Inr q \<longrightarrow> completed (tr @ tr') \<noteq> [] \<and> is_finish (last (completed (tr @ tr')))"
        unfolding c using t'(3) by simp
      have 4: "fs = 20971520 \<and> (\<exists>q. r = Inr q) \<longrightarrow>
              completed (tr @ tr') =
                [SessionStart (Bytes 0 8388608),
                 SessionAppend (Bytes 8388608 8388608) sid 8388608,
                 SessionFinish (Bytes 16777216 4194304) \<lparr>session_id = sid, offset = 16777216\<rparr> ?ci]"
      proof (rule impI)
        assume a: "fs = 20971520 \<and> (\<exists>q. r = Inr q)"
        with t'(2,3) have "session_steps 20971520 sid ?ci 8388608 (completed tr')"
          "completed tr' \<noteq> []" "is_finish (last (completed tr'))"
          by (auto simp: MAX_UPLOAD_CHUNK_SIZE_def)
        from session_steps_20MiB[OF this] r1(2,4) data_eq[of d] show
          "completed (tr @ tr') =
                [SessionStart (Bytes 0 8388608),
                 SessionAppend (Bytes 8388608 8388608) sid 8388608,
                 SessionFinish (Bytes 16777216 4194304) \<lparr>session_id = sid, offset = 16777216\<rparr> ?ci]"
          unfolding c by (simp add: MAX_UPLOAD_CHUNK_SIZE_def)
      qed
      from 2 have 5: "contiguous (appends (completed (tr @ tr')))"
        by (rule chunked_session_contiguous)
      from 1 2 3 4 5 show ?thesis by blast
    qed
  qed
qed

text \<open>The theorem at a file of 20 MiB and the empty store in memory.\<close>

theorem chunk_upload_session_protocol_witness:
  "\<exists>s' sid. chunk_upload memory_dbx ''/Photos/IMG_01.JPG''
          \<lparr>content_size = 20971520, bad_offset = None\<rparr> 20971520
          \<lparr>world = \<lparr>objects = [], session = 0\<rparr>, tell = 0, trace = []\<rparr>
        = Some (Inr ''/Photos/IMG_01.JPG'', s') \<and>
      completed (trace s') =
        [SessionStart (Bytes 0 8388608),
         SessionAppend (Bytes 8388608 8388608) sid 8388608,
         SessionFinish (Bytes 16777216 4194304) \<lparr>session_id = sid, offset = 16777216\<rparr>
           \<lparr>path = ''/Photos/IMG_01.JPG'', autorename = True, mode = Add\<rparr>]"
proof -
  have "\<exists>s'. chunk_upload memory_dbx ''/Photos/IMG_01.JPG''
          \<lparr>content_size = 20971520, bad_offset = None\<rparr> 20971520
          \<lparr>world = \<lparr>objects = [], session = 0\<rparr>, tell = 0, trace = []\<rparr>
        = Some (Inr ''/Photos/IMG_01.JPG'', s')"
    by (simp add: run_defs)
  then obtain s' where e: "chunk_upload memory_dbx ''/Photos/IMG_01.JPG''
          \<lparr>content_size = 20971520, bad_offset = None\<rparr> 20971520
          \<lparr>world = \<lparr>objects = [], session = 0\<rparr>, tell = 0, trace = []\<rparr>
        = Some (Inr ''/Photos/IMG_01.JPG'', s')" ..
  have "MAX_UPLOAD_CHUNK_SIZE < 20971520" by (simp add: MAX_UPLOAD_CHUNK_SIZE_def)
  from chunk_upload_session_protocol[OF this _ _ e] e show ?thesis by auto
qed

text \<open>
  C10, as stated: with a file shorter than the declared size the loop does not
  terminate. In the run below the file holds 17 MiB (17825792 bytes) and is declared as
  20 MiB: the finish is sent with the last MiB, the position stays at 17 MiB, below the
  declared size, so the finish is sent again, with an empty block; the store, which has
  closed the session, rejects it, and \<^verbatim>\<open>_chunk_upload\<close> ends with that \<^verbatim>\<open>ApiError\<close>.
\<close>

theorem chunk_upload_short_file_ends_by_rejection:
  "chunk_upload memory_dbx ''/Photos/a.mov'' \<lparr>content_size = 17825792, bad_offset = None\<rparr> 20971520
       \<lparr>world = \<lparr>objects = [], session = 0\<rparr>, tell = 0, trace = []\<rparr> =
     Some (Inl (ApiError ''incorrect_offset''),
       \<lparr>world = \<lparr>objects = [(''/Photos/a.mov'', 17825792)], session = 0\<rparr>, tell = 17825792,
        trace =
          [Attempt (SessionStart (Bytes 0 8388608)) (Inr (GotSession ''session'')),
           Attempt (SessionAppend (Bytes 8388608 8388608) ''session'' 8388608) (Inr Done),
           Print (UploadedBytes 16777216),
           Attempt (SessionFinish (Bytes 16777216 1048576)
                      \<lparr>session_id = ''session'', offset = 16777216\<rparr>
                      \<lparr>path = ''/Photos/a.mov'', autorename = True, mode = Add\<rparr>)
             (Inr (GotFile (a_file ''/Photos/a.mov'' 17825792))),
           Print (UploadedBytes 16777216),
           Attempt (SessionFinish (Bytes 17825792 0)
                      \<lparr>session_id = ''session'', offset = 16777216\<rparr>
                      \<lparr>path = ''/Photos/a.mov'', autorename = True, mode = Add\<rparr>)
             (Inl (ApiError ''incorrect_offset''))]\<rparr>)"
  by (simp add: run_defs)

text \<open>
  C10, amended: when the bytes that can be read from the file are as many as the
  declared size, \<^verbatim>\<open>_chunk_upload\<close> returns or raises, whatever the remote side does and
  from whatever position: every turn of the loop moves the position of the file towards
  the declared size. When the file is shorter than the declared size (and the position
  is below the declared size, as it is for a file just opened), \<^verbatim>\<open>_chunk_upload\<close> never
  returns a value: its loop can only be left by an exception (a read that fails, a
  request that the remote side rejects), and it runs forever when no read fails and the
  remote side accepts every request of the session.
\<close>

theorem chunk_upload_ends_when_complete_never_returns_when_short:
  "(content_size f = fs \<longrightarrow> (\<exists>y. chunk_upload dbx p f fs s = Some y))
   \<and> (content_size f < fs \<and> tell s < fs \<longrightarrow>
        (\<forall>q s'. chunk_upload dbx p f fs s \<noteq> Some (Inr q, s')) \<and>
        (bad_offset f = None \<and> accepts_all dbx \<longrightarrow> chunk_upload dbx p f fs s = None))"
proof (intro conjI impI allI)
  assume "content_size f = fs"
  then show "\<exists>y. chunk_upload dbx p f fs s = Some y" by (rule chunk_upload_total)
next
  fix q s'
  assume a: "content_size f < fs \<and> tell s < fs"
  show "chunk_upload dbx p f fs s \<noteq> Some (Inr q, s')"
  proof
    assume "chunk_upload dbx p f fs s = Some (Inr q, s')"
    from chunk_upload_short[OF this] a show False by simp
  qed
next
  assume a: "content_size f < fs \<and> tell s < fs" and b: "bad_offset f = None \<and> accepts_all dbx"
  show "chunk_upload dbx p f fs s = None"
  proof (cases "chunk_upload dbx p f fs s")
    case None
    then show ?thesis .
  next
    case (Some y)
    then have "chunk_upload dbx p f fs s = Some (fst y, snd y)" by simp
    from chunk_upload_short[OF this] a b show ?thesis by simp
  qed
qed

text \<open>The theorem at a complete file of 20 MiB, and at a file of 10 MiB declared as 20 MiB
  with a remote store that accepts every request.\<close>

theorem chunk_upload_ends_when_complete_never_returns_when_short_witness:
  "(\<exists>y. chunk_upload memory_dbx ''/Photos/IMG_01.JPG''
          \<lparr>content_size = 20971520, bad_offset = None\<rparr> 20971520
          \<lparr>world = \<lparr>objects = [], session = 0\<rparr>, tell = 0, trace = []\<rparr> = Some y) \<and>
   chunk_upload empty_dbx ''/Photos/IMG_01.JPG''
          \<lparr>content_size = 10485760, bad_offset = None\<rparr> 20971520
          \<lparr>world = (), tell = 0, trace = []\<rparr> = None"
proof -
  have a: "accepts_all empty_dbx" by (simp add: accepts_all_def empty_dbx_def fixed_dbx_def)
  from chunk_upload_ends_when_complete_never_returns_when_short[where f = "\<lparr>content_size = 20971520, bad_offset = None\<rparr>"
      and fs = 20971520 and dbx = memory_dbx and p = "''/Photos/IMG_01.JPG''"
      and s = "\<lparr>world = \<lparr>objects = [], session = 0\<rparr>, tell = 0, trace = []\<rparr>"]
    chunk_upload_ends_when_complete_never_returns_when_short[where f = "\<lparr>content_size = 10485760, bad_offset = None\<rparr>"
      and fs = 20971520 and dbx = empty_dbx and p = "''/Photos/IMG_01.JPG''"
      and s = "\<lparr>world = (), tell = 0, trace = []\<rparr>"] a
  show ?thesis by simp
qed

end
